theory Spec2Isabelle
  imports Main "HOL-Library.Word"
begin

section \<open>Solidity values and the execution environment\<close>

text \<open>
  The two escrow contracts of the repository, \<open>WagerContract\<close> and
  \<open>WagerContractGasOptimized\<close> (Solidity \<open>^0.8.20\<close>), are embedded as functions on
  their storage.  Unsigned integers of the source are words of the declared width.
  Solidity 0.8 checks arithmetic: a result that leaves the range of the type reverts with
  \<open>Panic(0x11)\<close>, an index outside an array with \<open>Panic(0x32)\<close>.  Local \<open>uint256\<close>
  values are held as naturals and every checked operation tests the range explicitly.
  Gas is not modelled: every call is taken to carry enough of it.
\<close>

type_synonym uint256 = "256 word"
type_synonym uint128 = "128 word"
type_synonym uint64 = "64 word"
type_synonym uint32 = "32 word"
type_synonym uint8 = "8 word"
type_synonym address = "160 word"

text \<open>
  A revert carries the \<open>require\<close> message of the baseline contract, a custom error of the
  optimized contract, a panic code, the failure of a \<open>transfer\<close>, or the rejection of
  value sent to a function that is not \<open>payable\<close>.
\<close>

datatype error =
    Error string
  | InsufficientPayment
  | NeedAtLeast2Participants
  | CharityPercentageTooHigh
  | WagerNotPending
  | NotAParticipant
  | WagerNotActive
  | WinnerMustBeParticipant
  | CannotCancel
  | NotAuthorized
  | Panic nat
  | TransferFailed
  | NotPayable

text \<open>
  What a call sees of the chain: \<open>msg.sender\<close>, \<open>msg.value\<close>, \<open>block.timestamp\<close>, and
  whether an address accepts a plain transfer of value (an account does; a contract
  without a payable receive function, or one that needs more than the 2300 gas stipend,
  does not).
\<close>

record env =
  msg_sender :: address
  msg_value :: uint256
  block_timestamp :: uint256
  can_receive :: "address \<Rightarrow> bool"

datatype event =
    WagerCreated uint256 address nat
  | WagerResolved uint256 address

text \<open>
  The part of a contract's state held by the chain: its balance, the value transfers it
  has made (oldest first) and the events it has emitted (oldest first).
\<close>

record ledger =
  balance :: nat
  sent :: "(address \<times> nat) list"
  events :: "event list"

text \<open>
  A \<open>payable\<close> function holds the value sent with the call from its first instruction
  on (\<open>credit\<close>); a function that is not \<open>payable\<close>, here \<open>resolveWager\<close> and
  \<open>cancelWager\<close>, reverts a call that carries value before its body runs.
\<close>

definition credit :: "env \<Rightarrow> 'a ledger_scheme \<Rightarrow> 'a ledger_scheme" where
  "credit e s = s\<lparr>balance := balance s + unat (msg_value e)\<rparr>"

definition emit :: "event \<Rightarrow> 'a ledger_scheme \<Rightarrow> 'a ledger_scheme" where
  "emit ev s = s\<lparr>events := events s @ [ev]\<rparr>"

text \<open>
  \<open>payable(a).transfer(v)\<close>: reverts when the balance is too small or the recipient does
  not accept the value.  The recipient gets 2300 gas, too little to write storage, so no
  call back into the contract can change its state during the transfer.
\<close>

definition transfer ::
  "env \<Rightarrow> address \<Rightarrow> nat \<Rightarrow> 'a ledger_scheme \<Rightarrow> (error + unit) \<times> 'a ledger_scheme" where
  "transfer e a v s =
     (if balance s < v \<or> \<not> can_receive e a then (Inl TransferFailed, s)
      else (Inr (), s\<lparr>balance := balance s - v, sent := sent s @ [(a, v)]\<rparr>))"

text \<open>
  A function body runs on the storage and returns its result together with the storage as
  it stands when the body stops, also when it stops by reverting.  The chain then commits
  the storage of a body that returned and discards every write of a body that reverted.
\<close>

definition transact :: "('s \<Rightarrow> (error + 'a) \<times> 's) \<Rightarrow> 's \<Rightarrow> (error + 'a) \<times> 's" where
  "transact body s =
     (case body s of
        (Inl err, dirty) \<Rightarrow> (Inl err, s)
      | (Inr r, s') \<Rightarrow> (Inr r, s'))"

text \<open>The membership loop of \<open>acceptWager\<close> and \<open>resolveWager\<close>: a linear search that
  stops at the first match.\<close>

fun isParticipant :: "address list \<Rightarrow> address \<Rightarrow> bool" where
  "isParticipant [] a = False"
| "isParticipant (p # ps) a = (if p = a then True else isParticipant ps a)"

text \<open>The refund loop of \<open>cancelWager\<close>: one transfer per entry, in order; the first
  failing transfer reverts.\<close>

fun refund ::
  "env \<Rightarrow> address list \<Rightarrow> nat \<Rightarrow> 'a ledger_scheme \<Rightarrow> (error + unit) \<times> 'a ledger_scheme" where
  "refund e [] v s = (Inr (), s)"
| "refund e (p # ps) v s =
     (case transfer e p v s of
        (Inl err, s') \<Rightarrow> (Inl err, s')
      | (Inr u, s') \<Rightarrow> refund e ps v s')"

section \<open>The baseline contract\<close>

record Wager =
  id_wager :: uint256
  participants :: "address list"
  amount :: uint256
  condition :: string
  status :: uint8
  winner :: address
  charityEnabled :: bool
  charityPercentage :: uint8
  charityAddress :: address
  charityDonated :: uint256
  createdAt :: uint256
  resolvedAt :: uint256

text \<open>A mapping of Solidity is total: a key never written holds the zero value.\<close>

definition zero_Wager :: Wager where
  "zero_Wager = \<lparr>id_wager = 0, participants = [], amount = 0, condition = [], status = 0,
     winner = 0, charityEnabled = False, charityPercentage = 0, charityAddress = 0,
     charityDonated = 0, createdAt = 0, resolvedAt = 0\<rparr>"

record wstate = ledger +
  wagers :: "uint256 \<Rightarrow> Wager"
  nextWagerId :: uint256
  owner :: address

text \<open>The constructor; \<open>b\<close> is the value the address holds before deployment.  The
  constructor is not \<open>payable\<close>; a deployment that carries value creates no contract, and
  the state below is then the state of none.\<close>

definition constructor :: "env \<Rightarrow> nat \<Rightarrow> wstate" where
  "constructor e b = \<lparr>balance = b, sent = [], events = [],
     wagers = (\<lambda>k. zero_Wager), nextWagerId = 1, owner = msg_sender e\<rparr>"

definition set_wager :: "uint256 \<Rightarrow> (Wager \<Rightarrow> Wager) \<Rightarrow> wstate \<Rightarrow> wstate" where
  "set_wager k f s = s\<lparr>wagers := (wagers s)(k := f (wagers s k))\<rparr>"

definition createWager ::
  "env \<Rightarrow> address list \<Rightarrow> uint256 \<Rightarrow> string \<Rightarrow> bool \<Rightarrow> uint8 \<Rightarrow> address \<Rightarrow> wstate
     \<Rightarrow> (error + uint256) \<times> wstate" where
  "createWager e participants' amount' condition' charityEnabled' charityPercentage'
       charityAddress' s0 =
     (let s = credit e s0 in
      if \<not> amount' \<le> msg_value e then (Inl (Error ''Insufficient payment''), s)
      else if \<not> 2 \<le> length participants' then
        (Inl (Error ''Need at least 2 participants''), s)
      else if \<not> charityPercentage' \<le> 100 then
        (Inl (Error ''Charity percentage too high''), s)
      else if nextWagerId s + 1 = 0 then (Inl (Panic 17), s)
      else
        let wagerId = nextWagerId s;
            s1 = s\<lparr>nextWagerId := nextWagerId s + 1\<rparr>;
            s2 = s1\<lparr>wagers := (wagers s1)(wagerId :=
                   \<lparr>id_wager = wagerId, participants = participants', amount = amount',
                    condition = condition', status = 0, winner = 0,
                    charityEnabled = charityEnabled',
                    charityPercentage = charityPercentage',
                    charityAddress = charityAddress', charityDonated = 0,
                    createdAt = block_timestamp e, resolvedAt = 0\<rparr>)\<rparr>
        in (Inr wagerId, emit (WagerCreated wagerId (msg_sender e) (unat amount')) s2))"

definition acceptWager :: "env \<Rightarrow> uint256 \<Rightarrow> wstate \<Rightarrow> (error + unit) \<times> wstate" where
  "acceptWager e wagerId s0 =
     (let s = credit e s0; wager = wagers s wagerId in
      if \<not> status wager = 0 then (Inl (Error ''Wager not pending''), s)
      else if \<not> amount wager \<le> msg_value e then (Inl (Error ''Insufficient payment''), s)
      else if \<not> isParticipant (participants wager) (msg_sender e) then
        (Inl (Error ''Not a participant''), s)
      else (Inr (), set_wager wagerId (\<lambda>w. w\<lparr>status := 1\<rparr>) s))"

text \<open>Lines 108 to 112 of \<open>resolveWager\<close>: the charity share, 0 when the branch is not
  taken.\<close>

definition donate :: "env \<Rightarrow> uint256 \<Rightarrow> nat \<Rightarrow> wstate \<Rightarrow> (error + nat) \<times> wstate" where
  "donate e wagerId totalAmount s =
     (let wager = wagers s wagerId in
      if charityEnabled wager \<and> 0 < charityPercentage wager \<and> charityAddress wager \<noteq> 0 then
        if \<not> totalAmount * unat (charityPercentage wager) < 2 ^ 256 then (Inl (Panic 17), s)
        else
          let charityAmount = totalAmount * unat (charityPercentage wager) div 100 in
          case transfer e (charityAddress wager) charityAmount s of
            (Inl err, s') \<Rightarrow> (Inl err, s')
          | (Inr u, s') \<Rightarrow>
              (Inr charityAmount,
               set_wager wagerId (\<lambda>w. w\<lparr>charityDonated := of_nat charityAmount\<rparr>) s')
      else (Inr 0, s))"

text \<open>Lines 104 to 117 of \<open>resolveWager\<close>.\<close>

definition distribute :: "env \<Rightarrow> uint256 \<Rightarrow> address \<Rightarrow> wstate \<Rightarrow> (error + unit) \<times> wstate" where
  "distribute e wagerId winner' s =
     (let wager = wagers s wagerId;
          totalAmount = unat (amount wager) * length (participants wager) in
      if \<not> totalAmount < 2 ^ 256 then (Inl (Panic 17), s)
      else
        case donate e wagerId totalAmount s of
          (Inl err, s') \<Rightarrow> (Inl err, s')
        | (Inr charityAmount, s') \<Rightarrow>
            if totalAmount < charityAmount then (Inl (Panic 17), s')
            else
              (case transfer e winner' (totalAmount - charityAmount) s' of
                 (Inl err, s'') \<Rightarrow> (Inl err, s'')
               | (Inr u, s'') \<Rightarrow> (Inr (), emit (WagerResolved wagerId winner') s'')))"

definition resolveWager ::
  "env \<Rightarrow> uint256 \<Rightarrow> address \<Rightarrow> string \<Rightarrow> wstate \<Rightarrow> (error + unit) \<times> wstate" where
  "resolveWager e wagerId winner' evidence s =
     (let wager = wagers s wagerId in
      if msg_value e \<noteq> 0 then (Inl NotPayable, s)
      else if \<not> status wager = 1 then (Inl (Error ''Wager not active''), s)
      else if \<not> 0 < length (participants wager) then (Inl (Error ''Invalid wager''), s)
      else if \<not> isParticipant (participants wager) winner' then
        (Inl (Error ''Winner must be a participant''), s)
      else
        distribute e wagerId winner'
          (set_wager wagerId
             (\<lambda>w. w\<lparr>status := 2, winner := winner', resolvedAt := block_timestamp e\<rparr>) s))"

definition getWager :: "wstate \<Rightarrow> uint256 \<Rightarrow> Wager" where
  "getWager s wagerId = wagers s wagerId"

text \<open>
  In \<open>cancelWager\<close> the operator \<open>||\<close> evaluates \<open>wager.participants[0]\<close> only when the
  caller is not the owner; the index panics on an empty array.
\<close>

definition cancelWager :: "env \<Rightarrow> uint256 \<Rightarrow> wstate \<Rightarrow> (error + unit) \<times> wstate" where
  "cancelWager e wagerId s =
     (let wager = wagers s wagerId in
      if msg_value e \<noteq> 0 then (Inl NotPayable, s)
      else if \<not> (status wager = 0 \<or> status wager = 1) then (Inl (Error ''Cannot cancel''), s)
      else if msg_sender e \<noteq> owner s \<and> participants wager = [] then (Inl (Panic 50), s)
      else if \<not> (msg_sender e = owner s \<or> msg_sender e = participants wager ! 0) then
        (Inl (Error ''Not authorized''), s)
      else
        refund e (participants wager) (unat (amount wager))
          (set_wager wagerId (\<lambda>w. w\<lparr>status := 3\<rparr>) s))"


section \<open>Calls and runs of the baseline contract\<close>

datatype call =
    CreateWager "address list" uint256 string bool uint8 address
  | AcceptWager uint256
  | ResolveWager uint256 address string
  | CancelWager uint256

text \<open>What a call returns: the new id for \<open>createWager\<close>, nothing for the others.\<close>

definition returning ::
  "('a \<Rightarrow> 'b) \<Rightarrow> (error + 'a) \<times> 's \<Rightarrow> (error + 'b) \<times> 's" where
  "returning f r = (case r of (Inl err, s) \<Rightarrow> (Inl err, s) | (Inr x, s) \<Rightarrow> (Inr (f x), s))"

fun dispatch :: "env \<Rightarrow> call \<Rightarrow> wstate \<Rightarrow> (error + uint256 option) \<times> wstate" where
  "dispatch e (CreateWager ps a c ce cp ca) s = returning Some (createWager e ps a c ce cp ca s)"
| "dispatch e (AcceptWager k) s = returning (\<lambda>u. None) (acceptWager e k s)"
| "dispatch e (ResolveWager k w ev) s = returning (\<lambda>u. None) (resolveWager e k w ev s)"
| "dispatch e (CancelWager k) s = returning (\<lambda>u. None) (cancelWager e k s)"

definition exec :: "env \<Rightarrow> call \<Rightarrow> wstate \<Rightarrow> (error + uint256 option) \<times> wstate" where
  "exec e c s = transact (dispatch e c) s"

text \<open>A sequence of calls, each in its own environment; the results are kept in order.\<close>

fun run :: "(env \<times> call) list \<Rightarrow> wstate \<Rightarrow> (error + uint256 option) list \<times> wstate" where
  "run [] s = ([], s)"
| "run (ec # tr) s =
     (case exec (fst ec) (snd ec) s of
        (r, s') \<Rightarrow> (case run tr s' of (rs, s'') \<Rightarrow> (r # rs, s'')))"

text \<open>The ids that the calls of a run assigned, oldest first.\<close>

fun assigned :: "(error + uint256 option) list \<Rightarrow> uint256 list" where
  "assigned [] = []"
| "assigned (Inr (Some k) # rs) = k # assigned rs"
| "assigned (r # rs) = assigned rs"

text \<open>A wager exists once \<open>createWager\<close> has returned its id.\<close>

definition created :: "wstate \<Rightarrow> uint256 \<Rightarrow> bool" where
  "created s k \<longleftrightarrow> 0 < k \<and> k < nextWagerId s"

text \<open>The edges of the status diagram, each with the call that takes it.\<close>

fun edge :: "uint8 \<Rightarrow> call \<Rightarrow> uint256 \<Rightarrow> uint8 \<Rightarrow> bool" where
  "edge a (AcceptWager k) j b = (k = j \<and> a = 0 \<and> b = 1)"
| "edge a (ResolveWager k w ev) j b = (k = j \<and> a = 1 \<and> b = 2)"
| "edge a (CancelWager k) j b = (k = j \<and> (a = 0 \<or> a = 1) \<and> b = 3)"
| "edge a (CreateWager ps v c ce cp ca) j b = False"


text \<open>The calls of \<open>resolveWager\<close>.\<close>

fun is_ResolveWager :: "call \<Rightarrow> bool" where
  "is_ResolveWager (ResolveWager k w ev) = True"
| "is_ResolveWager c = False"

section \<open>The gas-optimized contract\<close>

text \<open>
  The packed struct declares eight members.  \<open>createWager\<close> of this contract is not
  embedded: its struct literal (lines 205 to 217) names the members \<open>participants\<close>,
  \<open>condition\<close> and \<open>resolvedAt\<close>, which the struct (lines 163 to 172) does not declare,
  so the function is not well-formed Solidity and has no behaviour to translate.  The
  other functions are embedded as they are written.
\<close>

record Wager_opt =
  amount_opt :: uint128
  createdAt_opt :: uint64
  id_opt :: uint32
  status_opt :: uint8
  charityPercentage_opt :: uint8
  charityEnabled_opt :: bool
  winner_opt :: address
  charityAddress_opt :: address

definition zero_Wager_opt :: Wager_opt where
  "zero_Wager_opt = \<lparr>amount_opt = 0, createdAt_opt = 0, id_opt = 0, status_opt = 0,
     charityPercentage_opt = 0, charityEnabled_opt = False, winner_opt = 0,
     charityAddress_opt = 0\<rparr>"

record ostate = ledger +
  wagerParticipants :: "uint256 \<Rightarrow> address list"
  wagerConditions :: "uint256 \<Rightarrow> string"
  wagers_opt :: "uint256 \<Rightarrow> Wager_opt"
  charityDonated_opt :: "uint256 \<Rightarrow> uint256"
  resolvedAt_opt :: "uint256 \<Rightarrow> uint64"
  nextWagerId_opt :: uint256
  owner_opt :: address

definition constructor_opt :: "env \<Rightarrow> nat \<Rightarrow> ostate" where
  "constructor_opt e b = \<lparr>balance = b, sent = [], events = [],
     wagerParticipants = (\<lambda>k. []), wagerConditions = (\<lambda>k. []),
     wagers_opt = (\<lambda>k. zero_Wager_opt), charityDonated_opt = (\<lambda>k. 0),
     resolvedAt_opt = (\<lambda>k. 0), nextWagerId_opt = 1, owner_opt = msg_sender e\<rparr>"

definition set_wager_opt :: "uint256 \<Rightarrow> (Wager_opt \<Rightarrow> Wager_opt) \<Rightarrow> ostate \<Rightarrow> ostate" where
  "set_wager_opt k f s = s\<lparr>wagers_opt := (wagers_opt s)(k := f (wagers_opt s k))\<rparr>"

definition acceptWager_opt :: "env \<Rightarrow> uint256 \<Rightarrow> ostate \<Rightarrow> (error + unit) \<times> ostate" where
  "acceptWager_opt e wagerId s0 =
     (let s = credit e s0; wager = wagers_opt s wagerId in
      if status_opt wager \<noteq> 0 then (Inl WagerNotPending, s)
      else if msg_value e < ucast (amount_opt wager) then (Inl InsufficientPayment, s)
      else if \<not> isParticipant (wagerParticipants s wagerId) (msg_sender e) then
        (Inl NotAParticipant, s)
      else (Inr (), set_wager_opt wagerId (\<lambda>w. w\<lparr>status_opt := 1\<rparr>) s))"

definition donate_opt :: "env \<Rightarrow> uint256 \<Rightarrow> nat \<Rightarrow> ostate \<Rightarrow> (error + nat) \<times> ostate" where
  "donate_opt e wagerId totalAmount s =
     (let wager = wagers_opt s wagerId in
      if charityEnabled_opt wager \<and> 0 < charityPercentage_opt wager
           \<and> charityAddress_opt wager \<noteq> 0 then
        if \<not> totalAmount * unat (charityPercentage_opt wager) < 2 ^ 256 then
          (Inl (Panic 17), s)
        else
          let charityAmount = totalAmount * unat (charityPercentage_opt wager) div 100 in
          case transfer e (charityAddress_opt wager) charityAmount s of
            (Inl err, s') \<Rightarrow> (Inl err, s')
          | (Inr u, s') \<Rightarrow>
              (Inr charityAmount,
               s'\<lparr>charityDonated_opt :=
                    (charityDonated_opt s')(wagerId := of_nat charityAmount)\<rparr>)
      else (Inr 0, s))"

definition distribute_opt ::
  "env \<Rightarrow> uint256 \<Rightarrow> address \<Rightarrow> nat \<Rightarrow> ostate \<Rightarrow> (error + unit) \<times> ostate" where
  "distribute_opt e wagerId winner' length' s =
     (let wager = wagers_opt s wagerId;
          totalAmount = unat (amount_opt wager) * length' in
      if \<not> totalAmount < 2 ^ 256 then (Inl (Panic 17), s)
      else
        case donate_opt e wagerId totalAmount s of
          (Inl err, s') \<Rightarrow> (Inl err, s')
        | (Inr charityAmount, s') \<Rightarrow>
            if totalAmount < charityAmount then (Inl (Panic 17), s')
            else
              (case transfer e winner' (totalAmount - charityAmount) s' of
                 (Inl err, s'') \<Rightarrow> (Inl err, s'')
               | (Inr u, s'') \<Rightarrow> (Inr (), emit (WagerResolved wagerId winner') s'')))"

definition resolveWager_opt ::
  "env \<Rightarrow> uint256 \<Rightarrow> address \<Rightarrow> ostate \<Rightarrow> (error + unit) \<times> ostate" where
  "resolveWager_opt e wagerId winner' s =
     (let wager = wagers_opt s wagerId; participants' = wagerParticipants s wagerId;
          length' = length participants' in
      if msg_value e \<noteq> 0 then (Inl NotPayable, s)
      else if status_opt wager \<noteq> 1 then (Inl WagerNotActive, s)
      else if length' = 0 then (Inl WagerNotActive, s)
      else if \<not> isParticipant participants' winner' then (Inl WinnerMustBeParticipant, s)
      else
        let s1 = set_wager_opt wagerId (\<lambda>w. w\<lparr>status_opt := 2, winner_opt := winner'\<rparr>) s;
            s2 = s1\<lparr>resolvedAt_opt :=
                     (resolvedAt_opt s1)(wagerId := ucast (block_timestamp e))\<rparr>
        in distribute_opt e wagerId winner' length' s2)"

text \<open>\<open>getWager\<close> of the optimized contract returns the packed struct, the participants
  and the condition; \<open>charityDonated\<close> and \<open>resolvedAt\<close> are read through the getters of
  their public mappings.\<close>

definition getWager_opt :: "ostate \<Rightarrow> uint256 \<Rightarrow> Wager_opt \<times> address list \<times> string" where
  "getWager_opt s wagerId = (wagers_opt s wagerId, wagerParticipants s wagerId,
     wagerConditions s wagerId)"

definition cancelWager_opt :: "env \<Rightarrow> uint256 \<Rightarrow> ostate \<Rightarrow> (error + unit) \<times> ostate" where
  "cancelWager_opt e wagerId s =
     (let wager = wagers_opt s wagerId; participants' = wagerParticipants s wagerId in
      if msg_value e \<noteq> 0 then (Inl NotPayable, s)
      else if 1 < status_opt wager then (Inl CannotCancel, s)
      else if msg_sender e \<noteq> owner_opt s \<and> participants' = [] then (Inl (Panic 50), s)
      else if \<not> (msg_sender e = owner_opt s \<or> msg_sender e = participants' ! 0) then
        (Inl NotAuthorized, s)
      else
        refund e participants' (unat (amount_opt wager))
          (set_wager_opt wagerId (\<lambda>w. w\<lparr>status_opt := 3\<rparr>) s))"

datatype call_opt =
    AcceptWager_opt uint256
  | ResolveWager_opt uint256 address
  | CancelWager_opt uint256

fun dispatch_opt :: "env \<Rightarrow> call_opt \<Rightarrow> ostate \<Rightarrow> (error + uint256 option) \<times> ostate" where
  "dispatch_opt e (AcceptWager_opt k) s = returning (\<lambda>u. None) (acceptWager_opt e k s)"
| "dispatch_opt e (ResolveWager_opt k w) s = returning (\<lambda>u. None) (resolveWager_opt e k w s)"
| "dispatch_opt e (CancelWager_opt k) s = returning (\<lambda>u. None) (cancelWager_opt e k s)"

definition exec_opt :: "env \<Rightarrow> call_opt \<Rightarrow> ostate \<Rightarrow> (error + uint256 option) \<times> ostate" where
  "exec_opt e c s = transact (dispatch_opt e c) s"

section \<open>Invariant of the baseline storage\<close>

definition sound :: "wstate \<Rightarrow> bool" where
  "sound s \<longleftrightarrow>
     nextWagerId s \<noteq> 0
     \<and> (\<forall>k. (created s k \<longrightarrow> 2 \<le> length (participants (wagers s k)))
            \<and> (\<not> created s k \<longrightarrow>
                 participants (wagers s k) = [] \<and> winner (wagers s k) = 0
                 \<and> charityDonated (wagers s k) = 0 \<and> resolvedAt (wagers s k) = 0)
            \<and> (status (wagers s k) = 2 \<longrightarrow> winner (wagers s k) \<in> set (participants (wagers s k)))
            \<and> (status (wagers s k) = 0 \<or> status (wagers s k) = 1
                 \<longrightarrow> charityDonated (wagers s k) = 0)
            \<and> charityPercentage (wagers s k) \<le> 100)"

section \<open>The payout of a stored wager\<close>

text \<open>The condition of line 108 and the values of lines 105 and 109 of \<open>resolveWager\<close>,
  as functions of the stored wager; the lemmas on \<open>resolveWager\<close> are stated with them.\<close>

definition charity_due :: "Wager \<Rightarrow> bool" where
  "charity_due w \<longleftrightarrow> charityEnabled w \<and> 0 < charityPercentage w \<and> charityAddress w \<noteq> 0"

definition totalPool :: "Wager \<Rightarrow> nat" where
  "totalPool w = unat (amount w) * length (participants w)"

definition charityShare :: "Wager \<Rightarrow> nat" where
  "charityShare w = (if charity_due w then totalPool w * unat (charityPercentage w) div 100 else 0)"


section \<open>Concrete scenarios\<close>

text \<open>
  The second scenario of the specification: the creator \<open>10\<close> stakes 100 on a wager with
  participant \<open>11\<close> and a charity share of 10 percent for address \<open>12\<close>; participant
  \<open>11\<close> accepts.  The contract is deployed by address \<open>99\<close> with an empty balance, and
  every address accepts value.
\<close>

definition env_of :: "address \<Rightarrow> uint256 \<Rightarrow> uint256 \<Rightarrow> env" where
  "env_of a v t = \<lparr>msg_sender = a, msg_value = v, block_timestamp = t,
     can_receive = (\<lambda>x. True)\<rparr>"

definition deployed :: wstate where
  "deployed = constructor (env_of 99 0 1) 0"

definition create2 :: call where
  "create2 = CreateWager [10, 11] 100 ''rain'' True 10 12"

definition pending2 :: wstate where
  "pending2 = snd (run [(env_of 10 100 5, create2)] deployed)"

definition active2 :: wstate where
  "active2 = snd (run [(env_of 10 100 5, create2), (env_of 11 100 6, AcceptWager 1)] deployed)"

definition resolved2 :: wstate where
  "resolved2 = snd (run [(env_of 10 100 5, create2), (env_of 11 100 6, AcceptWager 1),
     (env_of 11 0 7, ResolveWager 1 10 [])] deployed)"

text \<open>
  The third scenario of the specification: a wager of 50 among \<open>10\<close>, \<open>11\<close> and \<open>13\<close>, of
  which only the creator has staked, in a contract that held 100 before.
\<close>

definition pending3 :: wstate where
  "pending3 = snd (run [(env_of 10 50 5, CreateWager [10, 11, 13] 50 ''snow'' False 0 0)]
     (constructor (env_of 99 0 1) 100))"

text \<open>A storage of the optimized contract that holds the same wager under id 1, with
  the same balance.\<close>

definition pending3_opt :: ostate where
  "pending3_opt = \<lparr>balance = 150, sent = [], events = [],
     wagerParticipants = (\<lambda>k. [])(1 := [10, 11, 13]),
     wagerConditions = (\<lambda>k. [])(1 := ''snow''),
     wagers_opt = (\<lambda>k. zero_Wager_opt)(1 := \<lparr>amount_opt = 50, createdAt_opt = 5,
       id_opt = 1, status_opt = 0, charityPercentage_opt = 0, charityEnabled_opt = False,
       winner_opt = 0, charityAddress_opt = 0\<rparr>),
     charityDonated_opt = (\<lambda>k. 0), resolvedAt_opt = (\<lambda>k. 0), nextWagerId_opt = 2,
     owner_opt = 99\<rparr>"

text \<open>A call in which the address \<open>x\<close> does not accept value.\<close>

definition env_rejecting :: "address \<Rightarrow> address \<Rightarrow> uint256 \<Rightarrow> uint256 \<Rightarrow> env" where
  "env_rejecting x a v t = \<lparr>msg_sender = a, msg_value = v, block_timestamp = t,
     can_receive = (\<lambda>y. y \<noteq> x)\<rparr>"

section \<open>Effects of the baseline operations\<close>

lemma isParticipant_set: "isParticipant ps a \<longleftrightarrow> a \<in> set ps"
  by (induction ps) auto

lemma transact_Inl: "fst (transact body s) = Inl err \<Longrightarrow> snd (transact body s) = s"
  by (auto simp: transact_def split: prod.splits sum.splits)

lemma transact_Inr: "transact body s = (Inr r, s') \<longleftrightarrow> body s = (Inr r, s')"
  by (auto simp: transact_def split: prod.splits sum.splits)

lemma transact_cases:
  "transact body s = (r, s') \<Longrightarrow> (\<exists>err. r = Inl err \<and> s' = s) \<or> (\<exists>x. r = Inr x \<and> body s = (Inr x, s'))"
  by (auto simp: transact_def split: prod.splits sum.splits)

lemma returning_Inr: "returning f p = (Inr y, s') \<longleftrightarrow> (\<exists>x. p = (Inr x, s') \<and> y = f x)"
  by (auto simp: returning_def split: prod.splits sum.splits)

lemma refund_Inr:
  "refund e ps v s = (Inr u, s') \<Longrightarrow>
     s' = s\<lparr>balance := balance s - length ps * v, sent := sent s @ map (\<lambda>p. (p, v)) ps\<rparr>
     \<and> length ps * v \<le> balance s \<and> (\<forall>p\<in>set ps. can_receive e p)"
proof (induction ps arbitrary: s)
  case Nil
  then show ?case by simp
next
  case (Cons p ps)
  from Cons.prems obtain s1 where t: "transfer e p v s = (Inr (), s1)" and r: "refund e ps v s1 = (Inr u, s')"
    by (auto split: prod.splits sum.splits)
  from t have s1: "s1 = s\<lparr>balance := balance s - v, sent := sent s @ [(p, v)]\<rparr>" and ok: "v \<le> balance s" "can_receive e p"
    by (auto simp: transfer_def split: if_splits)
  from Cons.IH [OF r] s1 ok show ?case by auto
qed

lemma createWager_Inr:
  assumes "createWager e ps a c ce cp ca s = (Inr k, s')"
  shows "k = nextWagerId s" "a \<le> msg_value e" "2 \<le> length ps" "cp \<le> 100" "nextWagerId s + 1 \<noteq> 0"
    "balance s' = balance s + unat (msg_value e)" "sent s' = sent s"
    "events s' = events s @ [WagerCreated k (msg_sender e) (unat a)]"
    "nextWagerId s' = nextWagerId s + 1" "owner s' = owner s"
    "wagers s' = (wagers s)(k := \<lparr>id_wager = k, participants = ps, amount = a,
                    condition = c, status = 0, winner = 0, charityEnabled = ce,
                    charityPercentage = cp, charityAddress = ca, charityDonated = 0,
                    createdAt = block_timestamp e, resolvedAt = 0\<rparr>)"
  using assms by (auto simp: createWager_def credit_def emit_def Let_def split: if_splits)

lemma acceptWager_Inr:
  assumes "acceptWager e k s = (Inr u, s')"
  shows "status (wagers s k) = 0" "amount (wagers s k) \<le> msg_value e"
    "msg_sender e \<in> set (participants (wagers s k))"
    "s' = s\<lparr>balance := balance s + unat (msg_value e),
            wagers := (wagers s)(k := (wagers s k)\<lparr>status := 1\<rparr>)\<rparr>"
  using assms by (auto simp: acceptWager_def credit_def set_wager_def Let_def isParticipant_set split: if_splits)



lemma donate_Inr:
  assumes "donate e k tot s = (Inr ca, s')"
  shows "ca = (if charity_due (wagers s k)
               then tot * unat (charityPercentage (wagers s k)) div 100 else 0)"
    "balance s' = balance s - ca" "ca \<le> balance s"
    "sent s' = sent s @ (if charity_due (wagers s k) then [(charityAddress (wagers s k), ca)] else [])"
    "events s' = events s" "nextWagerId s' = nextWagerId s" "owner s' = owner s"
    "wagers s' = (if charity_due (wagers s k)
                  then (wagers s)(k := (wagers s k)\<lparr>charityDonated := of_nat ca\<rparr>) else wagers s)"
    "charity_due (wagers s k) \<Longrightarrow> tot * unat (charityPercentage (wagers s k)) < 2 ^ 256"
  using assms
  by (auto simp: donate_def transfer_def set_wager_def Let_def charity_due_def split: if_splits)

lemma distribute_Inr:
  assumes "distribute e k w s = (Inr u, s')"
  shows "totalPool (wagers s k) < 2 ^ 256"
    "charityShare (wagers s k) \<le> totalPool (wagers s k)"
    "totalPool (wagers s k) \<le> balance s"
    "balance s' = balance s - totalPool (wagers s k)"
    "sent s' = sent s @ (if charity_due (wagers s k) then [(charityAddress (wagers s k), charityShare (wagers s k))] else [])
                @ [(w, totalPool (wagers s k) - charityShare (wagers s k))]"
    "events s' = events s @ [WagerResolved k w]" "nextWagerId s' = nextWagerId s" "owner s' = owner s"
    "wagers s' = (if charity_due (wagers s k)
                  then (wagers s)(k := (wagers s k)\<lparr>charityDonated := of_nat (charityShare (wagers s k))\<rparr>) else wagers s)"
proof -
  let ?g = "wagers s k"
  from assms obtain ca s1 where t: "totalPool ?g < 2 ^ 256"
    and d: "donate e k (totalPool ?g) s = (Inr ca, s1)"
    and le: "ca \<le> totalPool ?g"
    and tr: "transfer e w (totalPool ?g - ca) s1 = (Inr (), s1\<lparr>balance := balance s1 - (totalPool ?g - ca), sent := sent s1 @ [(w, totalPool ?g - ca)]\<rparr>)"
    and s': "s' = emit (WagerResolved k w) (s1\<lparr>balance := balance s1 - (totalPool ?g - ca), sent := sent s1 @ [(w, totalPool ?g - ca)]\<rparr>)"
    and bal: "totalPool ?g - ca \<le> balance s1"
    by (auto simp: distribute_def Let_def totalPool_def transfer_def split: if_splits prod.splits sum.splits)
  note dd = donate_Inr [OF d]
  have ca: "ca = charityShare ?g" using dd(1) by (simp add: charityShare_def)
  show "totalPool (wagers s k) < 2 ^ 256" by (rule t)
  show "charityShare (wagers s k) \<le> totalPool (wagers s k)" using le ca by simp
  show "totalPool (wagers s k) \<le> balance s" using bal dd(2,3) le by simp
  show "balance s' = balance s - totalPool (wagers s k)" using s' dd(2,3) le bal by (simp add: emit_def)
  show "sent s' = sent s @ (if charity_due (wagers s k) then [(charityAddress (wagers s k), charityShare (wagers s k))] else [])
                @ [(w, totalPool (wagers s k) - charityShare (wagers s k))]"
    using s' dd(4) ca by (simp add: emit_def)
  show "events s' = events s @ [WagerResolved k w]" using s' dd(5) by (simp add: emit_def)
  show "nextWagerId s' = nextWagerId s" using s' dd(6) by (simp add: emit_def)
  show "owner s' = owner s" using s' dd(7) by (simp add: emit_def)
  show "wagers s' = (if charity_due (wagers s k)
                  then (wagers s)(k := (wagers s k)\<lparr>charityDonated := of_nat (charityShare (wagers s k))\<rparr>) else wagers s)"
    using s' dd(8) ca by (simp add: emit_def)
qed


lemma resolveWager_Inr:
  assumes "resolveWager e k w ev s = (Inr u, s')"
  shows "msg_value e = 0" "status (wagers s k) = 1" "w \<in> set (participants (wagers s k))"
    "totalPool (wagers s k) < 2 ^ 256"
    "charityShare (wagers s k) \<le> totalPool (wagers s k)"
    "totalPool (wagers s k) \<le> balance s"
    "balance s' = balance s - totalPool (wagers s k)"
    "sent s' = sent s @ (if charity_due (wagers s k) then [(charityAddress (wagers s k), charityShare (wagers s k))] else [])
                @ [(w, totalPool (wagers s k) - charityShare (wagers s k))]"
    "events s' = events s @ [WagerResolved k w]" "nextWagerId s' = nextWagerId s" "owner s' = owner s"
    "wagers s' = (wagers s)(k := (wagers s k)\<lparr>status := 2, winner := w,
         resolvedAt := block_timestamp e,
         charityDonated := (if charity_due (wagers s k) then of_nat (charityShare (wagers s k))
                            else charityDonated (wagers s k))\<rparr>)"
proof -
  let ?s1 = "set_wager k (\<lambda>g. g\<lparr>status := 2, winner := w, resolvedAt := block_timestamp e\<rparr>) s"
  from assms have pre: "msg_value e = 0" "status (wagers s k) = 1" "w \<in> set (participants (wagers s k))"
    and d: "distribute e k w ?s1 = (Inr u, s')"
    by (auto simp: resolveWager_def Let_def isParticipant_set split: if_splits)
  note dd = distribute_Inr [OF d]
  have g: "totalPool (wagers ?s1 k) = totalPool (wagers s k)"
    "charityShare (wagers ?s1 k) = charityShare (wagers s k)"
    "charity_due (wagers ?s1 k) = charity_due (wagers s k)"
    "charityAddress (wagers ?s1 k) = charityAddress (wagers s k)"
    by (simp_all add: set_wager_def totalPool_def charityShare_def charity_due_def)
  have l: "balance ?s1 = balance s" "sent ?s1 = sent s" "events ?s1 = events s"
    "nextWagerId ?s1 = nextWagerId s" "owner ?s1 = owner s"
    by (simp_all add: set_wager_def)
  show "msg_value e = 0" "status (wagers s k) = 1" "w \<in> set (participants (wagers s k))" by (rule pre)+
  show "totalPool (wagers s k) < 2 ^ 256" using dd(1) g by simp
  show "charityShare (wagers s k) \<le> totalPool (wagers s k)" using dd(2) g by simp
  show "totalPool (wagers s k) \<le> balance s" using dd(3) g l by simp
  show "balance s' = balance s - totalPool (wagers s k)" using dd(4) g l by simp
  show "sent s' = sent s @ (if charity_due (wagers s k) then [(charityAddress (wagers s k), charityShare (wagers s k))] else [])
                @ [(w, totalPool (wagers s k) - charityShare (wagers s k))]"
    using dd(5) g l by simp
  show "events s' = events s @ [WagerResolved k w]" using dd(6) l by simp
  show "nextWagerId s' = nextWagerId s" using dd(7) l by simp
  show "owner s' = owner s" using dd(8) l by simp
  show "wagers s' = (wagers s)(k := (wagers s k)\<lparr>status := 2, winner := w,
         resolvedAt := block_timestamp e,
         charityDonated := (if charity_due (wagers s k) then of_nat (charityShare (wagers s k))
                            else charityDonated (wagers s k))\<rparr>)"
    using dd(9) g by (auto simp: set_wager_def)
qed

lemma cancelWager_Inr:
  assumes "cancelWager e k s = (Inr u, s')"
  shows "msg_value e = 0" "status (wagers s k) = 0 \<or> status (wagers s k) = 1"
    "msg_sender e = owner s \<or> (participants (wagers s k) \<noteq> [] \<and> msg_sender e = hd (participants (wagers s k)))"
    "s' = s\<lparr>balance := balance s - length (participants (wagers s k)) * unat (amount (wagers s k)),
            sent := sent s @ map (\<lambda>p. (p, unat (amount (wagers s k)))) (participants (wagers s k)),
            wagers := (wagers s)(k := (wagers s k)\<lparr>status := 3\<rparr>)\<rparr>"
    "length (participants (wagers s k)) * unat (amount (wagers s k)) \<le> balance s"
proof -
  let ?s1 = "set_wager k (\<lambda>g. g\<lparr>status := 3\<rparr>) s"
  from assms have pre: "msg_value e = 0" "status (wagers s k) = 0 \<or> status (wagers s k) = 1"
    "msg_sender e = owner s \<or> (participants (wagers s k) \<noteq> [] \<and> msg_sender e = hd (participants (wagers s k)))"
    and r: "refund e (participants (wagers s k)) (unat (amount (wagers s k))) ?s1 = (Inr u, s')"
    by (auto simp: cancelWager_def Let_def hd_conv_nth split: if_splits)
  show "msg_value e = 0" "status (wagers s k) = 0 \<or> status (wagers s k) = 1"
    "msg_sender e = owner s \<or> (participants (wagers s k) \<noteq> [] \<and> msg_sender e = hd (participants (wagers s k)))"
    by (rule pre)+
  from refund_Inr [OF r]
  show "s' = s\<lparr>balance := balance s - length (participants (wagers s k)) * unat (amount (wagers s k)),
            sent := sent s @ map (\<lambda>p. (p, unat (amount (wagers s k)))) (participants (wagers s k)),
            wagers := (wagers s)(k := (wagers s k)\<lparr>status := 3\<rparr>)\<rparr>"
    "length (participants (wagers s k)) * unat (amount (wagers s k)) \<le> balance s"
    by (simp_all add: set_wager_def)
qed

lemma exec_Inl: "fst (exec e c s) = Inl err \<Longrightarrow> snd (exec e c s) = s"
  unfolding exec_def by (rule transact_Inl)

lemma exec_Inr_Create:
  "exec e (CreateWager ps a c ce cp ca) s = (Inr r, s') \<longleftrightarrow>
     (\<exists>k. r = Some k \<and> createWager e ps a c ce cp ca s = (Inr k, s'))"
  by (auto simp: exec_def transact_Inr returning_Inr)

lemma exec_Inr_Accept:
  "exec e (AcceptWager k) s = (Inr r, s') \<longleftrightarrow> r = None \<and> acceptWager e k s = (Inr (), s')"
  by (auto simp: exec_def transact_Inr returning_Inr)

lemma exec_Inr_Resolve:
  "exec e (ResolveWager k w ev) s = (Inr r, s') \<longleftrightarrow> r = None \<and> resolveWager e k w ev s = (Inr (), s')"
  by (auto simp: exec_def transact_Inr returning_Inr)

lemma exec_Inr_Cancel:
  "exec e (CancelWager k) s = (Inr r, s') \<longleftrightarrow> r = None \<and> cancelWager e k s = (Inr (), s')"
  by (auto simp: exec_def transact_Inr returning_Inr)


lemma less_incr:
  fixes n :: uint256
  assumes "n + 1 \<noteq> 0"
  shows "j < n + 1 \<longleftrightarrow> j \<le> n" "n < n + 1"
proof -
  from assms have "1 + n \<noteq> 0" by (simp add: add.commute)
  then have "unat (1 + n) = Suc (unat n)" by (rule unatSuc)
  then have u: "unat (n + 1) = Suc (unat n)" by (simp add: add.commute)
  show "j < n + 1 \<longleftrightarrow> j \<le> n" by (simp add: word_less_nat_alt word_le_nat_alt u less_Suc_eq_le)
  show "n < n + 1" by (simp add: word_less_nat_alt u)
qed

lemma created_after_create:
  assumes "nextWagerId s \<noteq> 0" "nextWagerId s + 1 \<noteq> 0" "nextWagerId s' = nextWagerId s + 1"
  shows "created s' j \<longleftrightarrow> created s j \<or> j = nextWagerId s"
  using assms less_incr(1) [OF assms(2), of j]
  by (auto simp: created_def word_neq_0_conv)

lemma sound_constructor: "sound (constructor e b)"
  by (auto simp: sound_def constructor_def zero_Wager_def created_def)

lemma sound_create:
  assumes "sound s" "createWager e ps a c ce cp ca s = (Inr k, s')"
  shows "sound s'"
proof -
  note cr = createWager_Inr [OF assms(2)]
  from assms(1) have n0: "nextWagerId s \<noteq> 0" by (simp add: sound_def)
  have c: "\<And>j. created s' j \<longleftrightarrow> created s j \<or> j = k"
    using created_after_create [OF n0 cr(5) cr(9)] cr(1) by simp
  have nk: "\<not> created s k" using cr(1) by (simp add: created_def)
  show ?thesis
    unfolding sound_def
  proof (intro conjI allI)
    show "nextWagerId s' \<noteq> 0" using cr(5,9) by simp
  next
    fix j show "created s' j \<longrightarrow> 2 \<le> length (participants (wagers s' j))"
      using assms(1) cr(3) by (auto simp: sound_def c cr(11))
  next
    fix j show "\<not> created s' j \<longrightarrow> participants (wagers s' j) = [] \<and> winner (wagers s' j) = 0
        \<and> charityDonated (wagers s' j) = 0 \<and> resolvedAt (wagers s' j) = 0"
      using assms(1) by (auto simp: sound_def c cr(11))
  next
    fix j show "status (wagers s' j) = 2 \<longrightarrow> winner (wagers s' j) \<in> set (participants (wagers s' j))"
      using assms(1) by (auto simp: sound_def cr(11))
  next
    fix j show "status (wagers s' j) = 0 \<or> status (wagers s' j) = 1 \<longrightarrow> charityDonated (wagers s' j) = 0"
      using assms(1) by (auto simp: sound_def cr(11))
  next
    fix j show "charityPercentage (wagers s' j) \<le> 100"
      using assms(1) cr(4) by (auto simp: sound_def cr(11))
  qed
qed

lemma sound_accept:
  assumes "sound s" "acceptWager e k s = (Inr u, s')"
  shows "sound s'"
  using assms(1) acceptWager_Inr(1) [OF assms(2)]
  unfolding acceptWager_Inr(4) [OF assms(2)]
  by (auto simp: sound_def created_def)

lemma sound_resolve:
  assumes "sound s" "resolveWager e k w ev s = (Inr u, s')"
  shows "sound s'"
proof -
  note rr = resolveWager_Inr [OF assms(2)]
  have c: "\<And>j. created s' j = created s j" by (simp add: created_def rr(10))
  show ?thesis using assms(1) rr(3)
    by (auto simp: sound_def c rr(10) rr(12))
qed

lemma sound_cancel:
  assumes "sound s" "cancelWager e k s = (Inr u, s')"
  shows "sound s'"
  using assms(1)
  unfolding cancelWager_Inr(4) [OF assms(2)]
  by (auto simp: sound_def created_def)

lemma sound_exec:
  assumes "sound s"
  shows "sound (snd (exec e c s))"
proof (cases "fst (exec e c s)")
  case (Inl err)
  then show ?thesis using assms by (simp add: exec_Inl)
next
  case (Inr r)
  then have x: "exec e c s = (Inr r, snd (exec e c s))" by (simp add: prod_eq_iff)
  show ?thesis
  proof (cases c)
    case (CreateWager ps a cnd ce cp ca)
    with x assms show ?thesis by (auto simp: exec_Inr_Create dest: sound_create)
  next
    case (AcceptWager k)
    with x assms show ?thesis by (auto simp: exec_Inr_Accept dest: sound_accept)
  next
    case (ResolveWager k w ev)
    with x assms show ?thesis by (auto simp: exec_Inr_Resolve dest: sound_resolve)
  next
    case (CancelWager k)
    with x assms show ?thesis by (auto simp: exec_Inr_Cancel dest: sound_cancel)
  qed
qed

lemma snd_run_Cons: "snd (run (ec # tr) s) = snd (run tr (snd (exec (fst ec) (snd ec) s)))"
  by (simp split: prod.splits)

lemma fst_run_Cons:
  "fst (run (ec # tr) s) = fst (exec (fst ec) (snd ec) s) # fst (run tr (snd (exec (fst ec) (snd ec) s)))"
  by (simp split: prod.splits)

lemma sound_run: "sound s \<Longrightarrow> sound (snd (run tr s))"
proof (induction tr arbitrary: s)
  case Nil
  then show ?case by simp
next
  case (Cons ec tr)
  from Cons.IH [OF sound_exec [OF Cons.prems, of "fst ec" "snd ec"]]
  show ?case by (simp only: snd_run_Cons)
qed

lemma sound_reachable: "sound (snd (run tr (constructor e b)))"
  by (rule sound_run [OF sound_constructor])

section \<open>Evaluation of the scenarios\<close>

lemmas eval_defs = exec_def transact_def returning_def createWager_def acceptWager_def
  resolveWager_def distribute_def donate_def cancelWager_def transfer_def credit_def emit_def
  set_wager_def constructor_def zero_Wager_def Let_def env_of_def deployed_def create2_def

lemma pending2_eq: "pending2 = \<lparr>balance = 100, sent = [], events = [WagerCreated 1 10 100],
   wagers = (\<lambda>k. zero_Wager)(1 := \<lparr>id_wager = 1, participants = [10, 11], amount = 100,
                    condition = ''rain'', status = 0, winner = 0, charityEnabled = True,
                    charityPercentage = 10, charityAddress = 12, charityDonated = 0,
                    createdAt = 5, resolvedAt = 0\<rparr>), nextWagerId = 2, owner = 99\<rparr>"
  by (simp add: pending2_def eval_defs)

lemma active2_eq: "active2 = \<lparr>balance = 200, sent = [], events = [WagerCreated 1 10 100],
   wagers = (\<lambda>k. zero_Wager)(1 := \<lparr>id_wager = 1, participants = [10, 11], amount = 100,
                    condition = ''rain'', status = 1, winner = 0, charityEnabled = True,
                    charityPercentage = 10, charityAddress = 12, charityDonated = 0,
                    createdAt = 5, resolvedAt = 0\<rparr>), nextWagerId = 2, owner = 99\<rparr>"
  by (simp add: active2_def eval_defs)

lemma resolved2_eq: "resolved2 = \<lparr>balance = 0, sent = [(12, 20), (10, 180)],
   events = [WagerCreated 1 10 100, WagerResolved 1 10],
   wagers = (\<lambda>k. zero_Wager)(1 := \<lparr>id_wager = 1, participants = [10, 11], amount = 100,
                    condition = ''rain'', status = 2, winner = 10, charityEnabled = True,
                    charityPercentage = 10, charityAddress = 12, charityDonated = 20,
                    createdAt = 5, resolvedAt = 7\<rparr>), nextWagerId = 2, owner = 99\<rparr>"
  by (simp add: resolved2_def eval_defs)


section \<open>Acceptance\<close>

lemma acceptWager_iff:
  "(\<exists>u s'. acceptWager e k s = (Inr u, s')) \<longleftrightarrow>
     status (wagers s k) = 0 \<and> amount (wagers s k) \<le> msg_value e
     \<and> msg_sender e \<in> set (participants (wagers s k))"
  by (auto simp: acceptWager_def credit_def Let_def isParticipant_set)

lemma exec_isl:
  "isl (fst (exec e c s)) \<longleftrightarrow> isl (fst (dispatch e c s))"
  by (auto simp: exec_def transact_def split: prod.splits sum.splits)

lemma isl_returning: "isl (fst (returning f p)) \<longleftrightarrow> isl (fst p)"
  by (auto simp: returning_def split: prod.splits sum.splits)

lemma not_isl_conv: "\<not> isl (fst p) \<longleftrightarrow> (\<exists>x s'. p = (Inr x, s'))"
  by (cases p; cases "fst p") auto

text \<open>
  C10.  A successful \<open>acceptWager\<close> starts from status Pending (0) and changes the
  storage in two places only: the status of that wager becomes Active (1) and the balance
  grows by the value sent.  Every other member of the wager, every other wager, the id
  counter and the owner are as before.
\<close>

theorem acceptWager_frame:
  "fst (exec e (AcceptWager k) s) = Inr r \<Longrightarrow>
     status (wagers s k) = 0
     \<and> snd (exec e (AcceptWager k) s) =
         s\<lparr>balance := balance s + unat (msg_value e),
           wagers := (wagers s)(k := (wagers s k)\<lparr>status := 1\<rparr>)\<rparr>
     \<and> wagers (snd (exec e (AcceptWager k) s)) k = (wagers s k)\<lparr>status := 1\<rparr>
     \<and> (\<forall>j. j \<noteq> k \<longrightarrow> wagers (snd (exec e (AcceptWager k) s)) j = wagers s j)
     \<and> nextWagerId (snd (exec e (AcceptWager k) s)) = nextWagerId s
     \<and> owner (snd (exec e (AcceptWager k) s)) = owner s"
proof -
  assume a: "fst (exec e (AcceptWager k) s) = Inr r"
  then have "exec e (AcceptWager k) s = (Inr r, snd (exec e (AcceptWager k) s))"
    by (simp add: prod_eq_iff)
  then have "acceptWager e k s = (Inr (), snd (exec e (AcceptWager k) s))"
    by (simp add: exec_Inr_Accept)
  from acceptWager_Inr(1,4) [OF this] show ?thesis by simp
qed

theorem acceptWager_frame_witness:
  "fst (exec (env_of 11 100 6) (AcceptWager 1) pending2) = Inr None
   \<and> status (wagers pending2 1) = 0
   \<and> snd (exec (env_of 11 100 6) (AcceptWager 1) pending2) =
         pending2\<lparr>balance := balance pending2 + unat (msg_value (env_of 11 100 6)),
           wagers := (wagers pending2)(1 := (wagers pending2 1)\<lparr>status := 1\<rparr>)\<rparr>
   \<and> nextWagerId (snd (exec (env_of 11 100 6) (AcceptWager 1) pending2)) = 2"
proof -
  have h: "fst (exec (env_of 11 100 6) (AcceptWager 1) pending2) = Inr None"
    by (simp add: pending2_eq eval_defs)
  have n: "nextWagerId pending2 = 2" by (simp add: pending2_eq)
  from h n acceptWager_frame [OF h] show ?thesis by simp
qed

text \<open>
  C4.  In every state the contract can reach, \<open>acceptWager\<close> succeeds exactly when the
  wager was created, its status is Pending (0), the caller is one of its participants and
  the value sent is at least its amount; a rejected call leaves the state as it was.  An
  id that \<open>createWager\<close> never returned is rejected.
\<close>

theorem acceptWager_accepts_iff:
  assumes "s = snd (run tr (constructor e0 b))"
  shows "(\<not> isl (fst (exec e (AcceptWager k) s)) \<longleftrightarrow>
            created s k \<and> status (wagers s k) = 0
            \<and> msg_sender e \<in> set (participants (wagers s k))
            \<and> amount (wagers s k) \<le> msg_value e)
         \<and> (isl (fst (exec e (AcceptWager k) s)) \<longrightarrow> snd (exec e (AcceptWager k) s) = s)"
proof -
  have snd: "sound s" unfolding assms by (rule sound_reachable)
  have ex: "msg_sender e \<in> set (participants (wagers s k)) \<Longrightarrow> created s k"
    using snd unfolding sound_def by (cases "created s k") auto
  have 1: "\<not> isl (fst (exec e (AcceptWager k) s)) \<longleftrightarrow> (\<exists>u s'. acceptWager e k s = (Inr u, s'))"
    by (simp add: exec_isl isl_returning not_isl_conv)
  have "\<not> isl (fst (exec e (AcceptWager k) s)) \<longleftrightarrow>
            created s k \<and> status (wagers s k) = 0
            \<and> msg_sender e \<in> set (participants (wagers s k))
            \<and> amount (wagers s k) \<le> msg_value e"
    unfolding 1 acceptWager_iff using ex by blast
  moreover have "isl (fst (exec e (AcceptWager k) s)) \<longrightarrow> snd (exec e (AcceptWager k) s) = s"
    by (auto simp: isl_def exec_Inl)
  ultimately show ?thesis by blast
qed

theorem acceptWager_accepts_iff_witness:
  "\<not> isl (fst (exec (env_of 11 100 6) (AcceptWager 1) pending2))
   \<and> created pending2 1 \<and> status (wagers pending2 1) = 0
   \<and> msg_sender (env_of 11 100 6) \<in> set (participants (wagers pending2 1))
   \<and> amount (wagers pending2 1) \<le> msg_value (env_of 11 100 6)
   \<and> \<not> created pending2 7
   \<and> isl (fst (exec (env_of 11 100 6) (AcceptWager 7) pending2))
   \<and> snd (exec (env_of 11 100 6) (AcceptWager 7) pending2) = pending2"
proof -
  have p: "pending2 = snd (run [(env_of 10 100 5, create2)] (constructor (env_of 99 0 1) 0))"
    by (simp only: pending2_def deployed_def)
  have c: "created pending2 1 \<and> status (wagers pending2 1) = 0
   \<and> msg_sender (env_of 11 100 6) \<in> set (participants (wagers pending2 1))
   \<and> amount (wagers pending2 1) \<le> msg_value (env_of 11 100 6)" "\<not> created pending2 7"
    by (simp_all add: pending2_eq created_def env_of_def)
  from acceptWager_accepts_iff [OF p, of "env_of 11 100 6" 1]
    acceptWager_accepts_iff [OF p, of "env_of 11 100 6" 7] c
  show ?thesis by blast
qed

section \<open>Resolution\<close>

lemma exec_Inr_fst: "fst (exec e c s) = Inr r \<Longrightarrow> exec e c s = (Inr r, snd (exec e c s))"
  by (simp add: prod_eq_iff)

text \<open>
  C1.  In every state the contract can reach, a successful \<open>resolveWager\<close> found the
  wager Active (1) with a charity percentage of at most 100, and made these transfers and
  no others: when charity is enabled, the percentage is positive and the charity address
  is set, \<open>floor(totalAmount * charityPercentage / 100)\<close> to the charity address, recorded
  in \<open>charityDonated\<close>; otherwise nothing, with \<open>charityDonated\<close> left at 0; then
  \<open>totalAmount - charityAmount\<close> to the winner, where
  \<open>totalAmount = amount * participants.length\<close>.  The two amounts add up to
  \<open>amount * participants.length\<close>.
\<close>

theorem resolveWager_payout:
  assumes "s = snd (run tr (constructor e0 b))"
    and "fst (exec e (ResolveWager k w ev) s) = Inr r"
  shows "let g = wagers s k; s' = snd (exec e (ResolveWager k w ev) s);
             totalAmount = unat (amount g) * length (participants g);
             due = (charityEnabled g \<and> 0 < charityPercentage g \<and> charityAddress g \<noteq> 0);
             charityAmount = (if due then totalAmount * unat (charityPercentage g) div 100 else 0);
             winnerAmount = totalAmount - charityAmount
         in status g = 1 \<and> charityPercentage g \<le> 100
            \<and> sent s' = sent s @ (if due then [(charityAddress g, charityAmount)] else [])
                                @ [(w, winnerAmount)]
            \<and> unat (charityDonated (wagers s' k)) = charityAmount
            \<and> winnerAmount + charityAmount = unat (amount g) * length (participants g)"
proof -
  let ?s' = "snd (exec e (ResolveWager k w ev) s)"
  have snd: "sound s" unfolding assms(1) by (rule sound_reachable)
  from exec_Inr_fst [OF assms(2)] have "resolveWager e k w ev s = (Inr (), ?s')"
    by (simp add: exec_Inr_Resolve)
  note rr = resolveWager_Inr [OF this]
  have pct: "charityPercentage (wagers s k) \<le> 100" using snd by (simp add: sound_def)
  have zero: "charityDonated (wagers s k) = 0" using snd rr(2) by (simp add: sound_def)
  have nd: "\<not> charity_due (wagers s k) \<Longrightarrow> charityShare (wagers s k) = 0"
    by (simp add: charityShare_def)
  have "unat (of_nat (charityShare (wagers s k)) :: uint256) = charityShare (wagers s k)"
    using rr(4,5) by (simp add: unat_of_nat)
  then have don: "unat (charityDonated (wagers ?s' k)) = charityShare (wagers s k)"
    using zero nd by (simp add: rr(12))
  have tp: "unat (amount (wagers s k)) * length (participants (wagers s k)) = totalPool (wagers s k)"
    by (simp add: totalPool_def)
  show ?thesis
  proof (cases "charity_due (wagers s k)")
    case True
    then have d: "charityEnabled (wagers s k) \<and> 0 < charityPercentage (wagers s k)
        \<and> charityAddress (wagers s k) \<noteq> 0"
      by (simp add: charity_due_def)
    have cs: "totalPool (wagers s k) * unat (charityPercentage (wagers s k)) div 100
        = charityShare (wagers s k)"
      using True by (simp add: charityShare_def)
    show ?thesis
      unfolding Let_def tp if_P [OF d] cs using rr(2) pct rr(8) don rr(5) True
      by simp
  next
    case False
    then have d: "\<not> (charityEnabled (wagers s k) \<and> 0 < charityPercentage (wagers s k)
        \<and> charityAddress (wagers s k) \<noteq> 0)"
      by (simp add: charity_due_def)
    show ?thesis
      unfolding Let_def tp if_not_P [OF d] using rr(2) pct rr(8) don False nd
      by simp
  qed
qed

theorem resolveWager_payout_witness:
  "fst (exec (env_of 11 0 7) (ResolveWager 1 10 []) active2) = Inr None
   \<and> sent (snd (exec (env_of 11 0 7) (ResolveWager 1 10 []) active2)) = [(12, 20), (10, 180)]
   \<and> unat (charityDonated (wagers (snd (exec (env_of 11 0 7) (ResolveWager 1 10 []) active2)) 1)) = 20
   \<and> (180::nat) + 20 = unat (amount (wagers active2 1)) * length (participants (wagers active2 1))"
proof -
  have p: "active2 = snd (run [(env_of 10 100 5, create2), (env_of 11 100 6, AcceptWager 1)]
     (constructor (env_of 99 0 1) 0))"
    by (simp only: active2_def deployed_def)
  have h: "fst (exec (env_of 11 0 7) (ResolveWager 1 10 []) active2) = Inr None"
    by (simp add: active2_eq eval_defs)
  have g: "wagers active2 1 = \<lparr>id_wager = 1, participants = [10, 11], amount = 100,
                    condition = ''rain'', status = 1, winner = 0, charityEnabled = True,
                    charityPercentage = 10, charityAddress = 12, charityDonated = 0,
                    createdAt = 5, resolvedAt = 0\<rparr>" "sent active2 = []"
    by (simp_all add: active2_eq)
  have u: "unat (100 :: uint256) = 100" "unat (10 :: uint8) = 10" by simp_all
  from resolveWager_payout [OF p h] h show ?thesis
    unfolding Let_def g by (simp add: u)
qed


lemma exec_cases:
  obtains (failed) err where "exec e c s = (Inl err, s)"
  | (create) ps a cnd ce cp ca k s' where "c = CreateWager ps a cnd ce cp ca"
      "exec e c s = (Inr (Some k), s')" "createWager e ps a cnd ce cp ca s = (Inr k, s')"
  | (accept) k s' where "c = AcceptWager k" "exec e c s = (Inr None, s')"
      "acceptWager e k s = (Inr (), s')"
  | (resolve) k w ev s' where "c = ResolveWager k w ev" "exec e c s = (Inr None, s')"
      "resolveWager e k w ev s = (Inr (), s')"
  | (cancel) k s' where "c = CancelWager k" "exec e c s = (Inr None, s')"
      "cancelWager e k s = (Inr (), s')"
proof (cases "fst (exec e c s)")
  case (Inl err)
  then have "exec e c s = (Inl err, s)" using exec_Inl [OF Inl] by (simp add: prod_eq_iff)
  then show ?thesis by (rule failed)
next
  case (Inr r)
  note x = exec_Inr_fst [OF Inr]
  show ?thesis
  proof (cases c)
    case (CreateWager ps a cnd ce cp ca)
    with x show ?thesis using create [of ps a cnd ce cp ca] by (auto simp: exec_Inr_Create)
  next
    case (AcceptWager k)
    with x show ?thesis using accept [of k] by (auto simp: exec_Inr_Accept)
  next
    case (ResolveWager k w ev)
    with x show ?thesis using resolve [of k w ev] by (auto simp: exec_Inr_Resolve)
  next
    case (CancelWager k)
    with x show ?thesis using cancel [of k] by (auto simp: exec_Inr_Cancel)
  qed
qed

lemma resolveWager_rejects_outsider:
  "w \<notin> set (participants (wagers s k)) \<Longrightarrow> isl (fst (exec e (ResolveWager k w ev) s))"
  by (simp add: exec_isl isl_returning resolveWager_def Let_def isParticipant_set)

lemma winner_kept:
  assumes "sound s" "\<not> is_ResolveWager c"
  shows "winner (wagers (snd (exec e c s)) k) = winner (wagers s k)"
proof (cases rule: exec_cases [of e c s])
  case (failed err)
  then show ?thesis by simp
next
  case (create ps a cnd ce cp ca j s')
  note cr = createWager_Inr [OF create(3)]
  have "\<not> created s j" using cr(1) by (simp add: created_def)
  then have "winner (wagers s j) = 0" using assms(1) by (simp add: sound_def)
  then show ?thesis using create(2) by (simp add: cr(11))
next
  case (accept j s')
  then show ?thesis by (simp add: acceptWager_Inr(4) [OF accept(3)])
next
  case (resolve j w ev s')
  then show ?thesis using assms(2) by simp
next
  case (cancel j s')
  then show ?thesis by (simp add: cancelWager_Inr(4) [OF cancel(3)])
qed

text \<open>
  C8.  In every state the contract can reach, a wager with status Resolved (2) has a
  winner that is one of its participants; \<open>resolveWager\<close> rejects a winner that is not a
  participant, and a call of any other operation leaves the winner of every wager as it
  was.
\<close>

theorem resolved_winner_is_participant:
  assumes "s = snd (run tr (constructor e0 b))"
  shows "(status (wagers s k) = 2 \<longrightarrow> winner (wagers s k) \<in> set (participants (wagers s k)))
         \<and> (w \<notin> set (participants (wagers s k)) \<longrightarrow> isl (fst (exec e (ResolveWager k w ev) s)))
         \<and> (\<not> is_ResolveWager c \<longrightarrow>
              winner (wagers (snd (exec e c s)) k) = winner (wagers s k))"
proof -
  have snd: "sound s" unfolding assms by (rule sound_reachable)
  then have "status (wagers s k) = 2 \<longrightarrow> winner (wagers s k) \<in> set (participants (wagers s k))"
    by (simp add: sound_def)
  then show ?thesis using resolveWager_rejects_outsider winner_kept [OF snd] by blast
qed

theorem resolved_winner_is_participant_witness:
  "status (wagers resolved2 1) = 2
   \<and> winner (wagers resolved2 1) \<in> set (participants (wagers resolved2 1))
   \<and> 13 \<notin> set (participants (wagers active2 1))
   \<and> isl (fst (exec (env_of 11 0 7) (ResolveWager 1 13 []) active2))
   \<and> \<not> is_ResolveWager (CancelWager 1)
   \<and> winner (wagers (snd (exec (env_of 10 0 8) (CancelWager 1) resolved2)) 1)
       = winner (wagers resolved2 1)"
proof -
  have p: "resolved2 = snd (run [(env_of 10 100 5, create2), (env_of 11 100 6, AcceptWager 1),
     (env_of 11 0 7, ResolveWager 1 10 [])] (constructor (env_of 99 0 1) 0))"
    by (simp only: resolved2_def deployed_def)
  have q: "active2 = snd (run [(env_of 10 100 5, create2), (env_of 11 100 6, AcceptWager 1)]
     (constructor (env_of 99 0 1) 0))"
    by (simp only: active2_def deployed_def)
  have c: "status (wagers resolved2 1) = 2" "13 \<notin> set (participants (wagers active2 1))"
    "\<not> is_ResolveWager (CancelWager 1)"
    by (simp_all add: resolved2_eq active2_eq)
  from resolved_winner_is_participant [OF p, of 1 0 "env_of 10 0 8" "[]" "CancelWager 1"]
    resolved_winner_is_participant [OF q, of 1 13 "env_of 11 0 7" "[]" "CancelWager 1"] c
  show ?thesis by blast
qed


section \<open>The participants of a created wager\<close>

lemma participants_kept:
  assumes "created s k"
  shows "participants (wagers (snd (exec e c s)) k) = participants (wagers s k)"
proof (cases rule: exec_cases [of e c s])
  case (failed err)
  then show ?thesis by simp
next
  case (create ps a cnd ce cp ca j s')
  note cr = createWager_Inr [OF create(3)]
  have "j \<noteq> k" using cr(1) assms by (auto simp: created_def)
  then show ?thesis using create(2) by (simp add: cr(11))
next
  case (accept j s')
  then show ?thesis by (simp add: acceptWager_Inr(4) [OF accept(3)])
next
  case (resolve j w ev s')
  then show ?thesis by (simp add: resolveWager_Inr(12) [OF resolve(3)])
next
  case (cancel j s')
  then show ?thesis by (simp add: cancelWager_Inr(4) [OF cancel(3)])
qed

lemma cancelWager_index_ok:
  "participants (wagers s k) \<noteq> [] \<Longrightarrow> fst (exec e (CancelWager k) s) \<noteq> Inl (Panic 50)"
proof (cases rule: exec_cases [of e "CancelWager k" s])
  case (failed err)
  assume ne: "participants (wagers s k) \<noteq> []"
  from failed have "fst (dispatch e (CancelWager k) s) = Inl err"
    by (auto simp: exec_def transact_def split: prod.splits sum.splits)
  then have "fst (cancelWager e k s) = Inl err"
    by (auto simp: returning_def split: prod.splits sum.splits)
  moreover have "\<And>v ps (t::wstate). fst (refund e ps v t) \<noteq> Inl (Panic 50)"
  proof -
    fix v ps and t :: wstate
    show "fst (refund e ps v t) \<noteq> Inl (Panic 50)"
      by (induction ps arbitrary: t) (auto simp: transfer_def split: prod.splits sum.splits if_splits)
  qed
  ultimately have "err \<noteq> Panic 50" using ne
    by (auto simp: cancelWager_def Let_def split: if_splits)
  then show ?thesis using failed by simp
qed simp_all

text \<open>
  C9.  In every state the contract can reach, a created wager has at least two
  participants, no call changes its list of participants, and \<open>cancelWager\<close> on it never
  stops with the panic of an index out of bounds.
\<close>

theorem participants_fixed_and_indexed:
  assumes "s = snd (run tr (constructor e0 b))" and "created s k"
  shows "2 \<le> length (participants (wagers s k))
         \<and> participants (wagers (snd (exec e c s)) k) = participants (wagers s k)
         \<and> fst (exec e' (CancelWager k) s) \<noteq> Inl (Panic 50)"
proof -
  have "sound s" unfolding assms(1) by (rule sound_reachable)
  then have l: "2 \<le> length (participants (wagers s k))" using assms(2) by (simp add: sound_def)
  then have "participants (wagers s k) \<noteq> []" by auto
  then show ?thesis using l participants_kept [OF assms(2)] cancelWager_index_ok by blast
qed

theorem participants_fixed_and_indexed_witness:
  "created active2 1
   \<and> 2 \<le> length (participants (wagers active2 1))
   \<and> participants (wagers (snd (exec (env_of 11 0 7) (ResolveWager 1 10 []) active2)) 1)
       = participants (wagers active2 1)
   \<and> fst (exec (env_of 13 0 7) (CancelWager 1) active2) \<noteq> Inl (Panic 50)"
proof -
  have q: "active2 = snd (run [(env_of 10 100 5, create2), (env_of 11 100 6, AcceptWager 1)]
     (constructor (env_of 99 0 1) 0))"
    by (simp only: active2_def deployed_def)
  have c: "created active2 1" by (simp add: active2_eq created_def)
  from participants_fixed_and_indexed [OF q c] c show ?thesis by blast
qed

section \<open>The id counter\<close>

lemma run_Cons_exec:
  "exec (fst ec) (snd ec) s = (r, s1) \<Longrightarrow>
     fst (run (ec # tr) s) = r # fst (run tr s1) \<and> snd (run (ec # tr) s) = snd (run tr s1)"
  by (simp split: prod.splits)

lemma run_ids:
  assumes "nextWagerId s \<noteq> 0"
  shows "nextWagerId (snd (run tr s)) \<noteq> 0
    \<and> nextWagerId s \<le> nextWagerId (snd (run tr s))
    \<and> sorted_wrt (<) (assigned (fst (run tr s)))
    \<and> (\<forall>k\<in>set (assigned (fst (run tr s))). nextWagerId s \<le> k)
    \<and> (assigned (fst (run tr s)) \<noteq> [] \<longrightarrow> hd (assigned (fst (run tr s))) = nextWagerId s)"
  using assms
proof (induction tr arbitrary: s)
  case Nil
  then show ?case by simp
next
  case (Cons ec tr)
  let ?e = "fst ec" and ?c = "snd ec"
  let ?s1 = "snd (exec ?e ?c s)"
  show ?case
  proof (cases rule: exec_cases [of ?e ?c s])
    case (failed err)
    with Cons.IH [OF Cons.prems] run_Cons_exec [OF failed, of tr] show ?thesis
      by (simp del: run.simps)
  next
    case (create ps a cnd ce cp ca k s')
    note cr = createWager_Inr [OF create(3)]
    have n1: "nextWagerId s' \<noteq> 0" using cr(5,9) by simp
    have lt: "nextWagerId s < nextWagerId s'" using less_incr(2) [OF cr(5)] cr(9) by simp
    from Cons.IH [OF n1] lt cr(1) run_Cons_exec [OF create(2), of tr] show ?thesis
      by (auto simp del: run.simps)
  next
    case (accept k s')
    have "nextWagerId s' = nextWagerId s" by (simp add: acceptWager_Inr(4) [OF accept(3)])
    with Cons.IH [of s'] Cons.prems run_Cons_exec [OF accept(2), of tr] show ?thesis
      by (simp del: run.simps)
  next
    case (resolve k w ev s')
    have "nextWagerId s' = nextWagerId s" by (simp add: resolveWager_Inr(10) [OF resolve(3)])
    with Cons.IH [of s'] Cons.prems run_Cons_exec [OF resolve(2), of tr] show ?thesis
      by (simp del: run.simps)
  next
    case (cancel k s')
    have "nextWagerId s' = nextWagerId s" by (simp add: cancelWager_Inr(4) [OF cancel(3)])
    with Cons.IH [of s'] Cons.prems run_Cons_exec [OF cancel(2), of tr] show ?thesis
      by (simp del: run.simps)
  qed
qed

lemma createWager_returns_counter:
  assumes "fst (exec e (CreateWager ps a cnd ce cp ca) s) = Inr r"
  shows "r = Some (nextWagerId s)"
    "nextWagerId (snd (exec e (CreateWager ps a cnd ce cp ca) s)) = nextWagerId s + 1"
    "nextWagerId s < nextWagerId s + 1"
proof -
  from exec_Inr_fst [OF assms] obtain k where r: "r = Some k"
    and c: "createWager e ps a cnd ce cp ca s = (Inr k, snd (exec e (CreateWager ps a cnd ce cp ca) s))"
    by (auto simp: exec_Inr_Create)
  note cr = createWager_Inr [OF c]
  show "r = Some (nextWagerId s)" using r cr(1) by simp
  show "nextWagerId (snd (exec e (CreateWager ps a cnd ce cp ca) s)) = nextWagerId s + 1" by (rule cr(9))
  show "nextWagerId s < nextWagerId s + 1" by (rule less_incr(2) [OF cr(5)])
qed

text \<open>
  C7.  The counter \<open>nextWagerId\<close> is 1 after the constructor.  In every run of calls
  from there the ids that \<open>createWager\<close> returned are strictly increasing in the order
  of the calls, so each is greater than all earlier ones and none is used twice, and the
  first one is 1.  A successful \<open>createWager\<close> returns the counter and leaves it one
  higher, without wrapping.
\<close>

theorem wager_ids_increase:
  "nextWagerId (constructor e0 b) = 1
   \<and> sorted_wrt (<) (assigned (fst (run tr (constructor e0 b))))
   \<and> (assigned (fst (run tr (constructor e0 b))) \<noteq> [] \<longrightarrow>
        hd (assigned (fst (run tr (constructor e0 b)))) = 1)
   \<and> (fst (exec e (CreateWager ps a cnd ce cp ca) s) = Inr r \<longrightarrow>
        r = Some (nextWagerId s)
        \<and> nextWagerId (snd (exec e (CreateWager ps a cnd ce cp ca) s)) = nextWagerId s + 1
        \<and> nextWagerId s < nextWagerId s + 1)"
proof -
  have n: "nextWagerId (constructor e0 b) = 1" by (simp add: constructor_def)
  then have "nextWagerId (constructor e0 b) \<noteq> 0" by simp
  from run_ids [OF this, of tr] n createWager_returns_counter [of e ps a cnd ce cp ca s r]
  show ?thesis by simp
qed

theorem wager_ids_increase_witness:
  "assigned (fst (run [(env_of 10 100 5, create2), (env_of 11 100 6, AcceptWager 1),
      (env_of 11 7 6, create2), (env_of 11 100 6, create2)] (constructor (env_of 99 0 1) 0)))
     = [1, 2]
   \<and> sorted_wrt (<) [1, 2 :: uint256]
   \<and> fst (exec (env_of 11 100 6) create2 active2) = Inr (Some 2)
   \<and> nextWagerId (snd (exec (env_of 11 100 6) create2 active2)) = 3"
proof -
  have a: "assigned (fst (run [(env_of 10 100 5, create2), (env_of 11 100 6, AcceptWager 1),
      (env_of 11 7 6, create2), (env_of 11 100 6, create2)] (constructor (env_of 99 0 1) 0)))
     = [1, 2]"
    by (simp add: eval_defs)
  have h: "fst (exec (env_of 11 100 6) create2 active2) = Inr (Some 2)"
    by (simp add: active2_eq eval_defs)
  have n: "nextWagerId active2 = 2" by (simp add: active2_eq)
  from wager_ids_increase [of "env_of 99 0 1" 0 "[(env_of 10 100 5, create2), (env_of 11 100 6, AcceptWager 1),
      (env_of 11 7 6, create2), (env_of 11 100 6, create2)]" "env_of 11 100 6" "[10, 11]" 100 "''rain''" True 10 12 active2 "Some 2"]
    a h n
  show ?thesis by (simp add: create2_def)
qed

text \<open>The created wagers of a reachable state are the ids that \<open>createWager\<close> has
  returned on the way there.\<close>

lemma created_run:
  assumes "nextWagerId s \<noteq> 0"
  shows "created (snd (run tr s)) k \<longleftrightarrow> created s k \<or> k \<in> set (assigned (fst (run tr s)))"
  using assms
proof (induction tr arbitrary: s)
  case Nil
  then show ?case by simp
next
  case (Cons ec tr)
  show ?case
  proof (cases rule: exec_cases [of "fst ec" "snd ec" s])
    case (failed err)
    with Cons.IH [OF Cons.prems] run_Cons_exec [OF failed, of tr] show ?thesis
      by (simp del: run.simps)
  next
    case (create ps a cnd ce cp ca j s')
    note cr = createWager_Inr [OF create(3)]
    have n1: "nextWagerId s' \<noteq> 0" using cr(5,9) by simp
    have c: "created s' k \<longleftrightarrow> created s k \<or> k = j"
      using created_after_create [OF Cons.prems cr(5) cr(9)] cr(1) by simp
    from Cons.IH [OF n1] c run_Cons_exec [OF create(2), of tr] show ?thesis
      by (auto simp del: run.simps)
  next
    case (accept j s')
    have "nextWagerId s' = nextWagerId s" by (simp add: acceptWager_Inr(4) [OF accept(3)])
    then have "created s' k = created s k" "nextWagerId s' \<noteq> 0"
      using Cons.prems by (simp_all add: created_def)
    with Cons.IH [of s'] run_Cons_exec [OF accept(2), of tr] show ?thesis
      by (simp del: run.simps)
  next
    case (resolve j w ev s')
    have "nextWagerId s' = nextWagerId s" by (simp add: resolveWager_Inr(10) [OF resolve(3)])
    then have "created s' k = created s k" "nextWagerId s' \<noteq> 0"
      using Cons.prems by (simp_all add: created_def)
    with Cons.IH [of s'] run_Cons_exec [OF resolve(2), of tr] show ?thesis
      by (simp del: run.simps)
  next
    case (cancel j s')
    have "nextWagerId s' = nextWagerId s" by (simp add: cancelWager_Inr(4) [OF cancel(3)])
    then have "created s' k = created s k" "nextWagerId s' \<noteq> 0"
      using Cons.prems by (simp_all add: created_def)
    with Cons.IH [of s'] run_Cons_exec [OF cancel(2), of tr] show ?thesis
      by (simp del: run.simps)
  qed
qed

lemma created_iff_assigned:
  "created (snd (run tr (constructor e b))) k
     \<longleftrightarrow> k \<in> set (assigned (fst (run tr (constructor e b))))"
proof -
  have "nextWagerId (constructor e b) \<noteq> 0" "\<not> created (constructor e b) k"
    by (auto simp: constructor_def created_def)
  then show ?thesis using created_run [of "constructor e b" tr k] by simp
qed

section \<open>The status diagram\<close>

lemma status_step:
  assumes "created s k"
  shows "created (snd (exec e c s)) k
    \<and> (status (wagers (snd (exec e c s)) k) = status (wagers s k)
        \<or> edge (status (wagers s k)) c k (status (wagers (snd (exec e c s)) k)))"
proof (cases rule: exec_cases [of e c s])
  case (failed err)
  then show ?thesis using assms by simp
next
  case (create ps a cnd ce cp ca j s')
  note cr = createWager_Inr [OF create(3)]
  have "j \<noteq> k" using cr(1) assms by (auto simp: created_def)
  moreover have "created s' k"
    using assms less_incr(1) [OF cr(5), of k] cr(9) by (auto simp: created_def)
  ultimately show ?thesis using create(2) by (simp add: cr(11))
next
  case (accept j s')
  note ac = acceptWager_Inr [OF accept(3)]
  show ?thesis using assms ac(1) accept(1,2) unfolding ac(4) by (auto simp: created_def)
next
  case (resolve j w ev s')
  note rr = resolveWager_Inr [OF resolve(3)]
  show ?thesis using assms rr(2) resolve(1,2) by (auto simp: created_def rr(10) rr(12))
next
  case (cancel j s')
  note cc = cancelWager_Inr [OF cancel(3)]
  show ?thesis using assms cc(2) cancel(1,2) unfolding cc(4) by (auto simp: created_def)
qed

lemma status_terminal_step:
  assumes "created s k" "status (wagers s k) = 2 \<or> status (wagers s k) = 3"
  shows "status (wagers (snd (exec e c s)) k) = status (wagers s k)"
  using status_step [OF assms(1), of e c] assms(2)
  by (cases c) auto

lemma status_terminal_run:
  assumes "created s k" "status (wagers s k) = 2 \<or> status (wagers s k) = 3"
  shows "created (snd (run tr s)) k \<and> status (wagers (snd (run tr s)) k) = status (wagers s k)"
  using assms
proof (induction tr arbitrary: s)
  case Nil
  then show ?case by simp
next
  case (Cons ec tr)
  let ?s1 = "snd (exec (fst ec) (snd ec) s)"
  have c: "created ?s1 k" using status_step [OF Cons.prems(1)] by blast
  have t: "status (wagers ?s1 k) = status (wagers s k)"
    by (rule status_terminal_step [OF Cons.prems])
  from Cons.IH [OF c] t Cons.prems(2) show ?case by (simp only: snd_run_Cons)
qed

lemma resolveWager_needs_active:
  "status (wagers s k) \<noteq> 1 \<Longrightarrow> isl (fst (exec e (ResolveWager k w ev) s))"
  by (simp add: exec_isl isl_returning resolveWager_def Let_def)

text \<open>
  An id that \<open>createWager\<close> has not returned is no wager: its slot holds the zero record,
  whose status reads Pending.  The owner passes the authorization of \<open>cancelWager\<close> on
  such an id without the participants being read, which marks the slot Cancelled; when
  \<open>createWager\<close> later reaches the id it stores a Pending wager there.  The diagram is
  therefore stated for created wagers.
\<close>

lemma uncreated_id_cancelled_then_created:
  "\<not> created deployed 1
   \<and> status (wagers (snd (run [(env_of 99 0 2, CancelWager 1)] deployed)) 1) = 3
   \<and> \<not> created (snd (run [(env_of 99 0 2, CancelWager 1)] deployed)) 1
   \<and> status (wagers (snd (run [(env_of 99 0 2, CancelWager 1), (env_of 10 100 5, create2)]
         deployed)) 1) = 0"
  by (simp add: eval_defs created_def)

text \<open>
  C2.  For a created wager, in any state: a call leaves its status as it was or moves it
  along one edge of the diagram, Pending (0) to Active (1) by \<open>acceptWager\<close>, Active to
  Resolved (2) by \<open>resolveWager\<close>, Pending or Active to Cancelled (3) by \<open>cancelWager\<close>,
  each by a call on that wager's id, and the wager stays created; once Resolved or
  Cancelled, its status is the same after any run of calls; and after a successful
  \<open>resolveWager\<close>, followed by any run of calls, \<open>resolveWager\<close> on the same id is
  rejected.
\<close>

theorem status_follows_diagram:
  assumes "created s k"
  shows "created (snd (exec e c s)) k
    \<and> (status (wagers (snd (exec e c s)) k) = status (wagers s k)
        \<or> edge (status (wagers s k)) c k (status (wagers (snd (exec e c s)) k)))
    \<and> (status (wagers s k) = 2 \<or> status (wagers s k) = 3 \<longrightarrow>
        status (wagers (snd (run tr s)) k) = status (wagers s k))
    \<and> (\<not> isl (fst (exec e (ResolveWager k w ev) s)) \<longrightarrow>
        isl (fst (exec e' (ResolveWager k w' ev')
                    (snd (run tr (snd (exec e (ResolveWager k w ev) s)))))))"
proof -
  have "isl (fst (exec e' (ResolveWager k w' ev')
                    (snd (run tr (snd (exec e (ResolveWager k w ev) s))))))"
    if ok: "\<not> isl (fst (exec e (ResolveWager k w ev) s))"
  proof -
    let ?s1 = "snd (exec e (ResolveWager k w ev) s)"
    from ok obtain r where "fst (exec e (ResolveWager k w ev) s) = Inr r"
      by (cases "fst (exec e (ResolveWager k w ev) s)") auto
    from exec_Inr_fst [OF this] have "resolveWager e k w ev s = (Inr (), ?s1)"
      by (simp add: exec_Inr_Resolve)
    note rr = resolveWager_Inr [OF this]
    have st: "status (wagers ?s1 k) = 2" by (simp add: rr(12))
    have c1: "created ?s1 k" using assms by (simp add: created_def rr(10))
    from status_terminal_run [OF c1, of tr] st
    have "status (wagers (snd (run tr ?s1)) k) = 2" by simp
    then show ?thesis by (intro resolveWager_needs_active) simp
  qed
  then show ?thesis
    using status_step [OF assms, of e c] status_terminal_run [OF assms, of tr] by blast
qed

theorem status_follows_diagram_witness:
  "created active2 1
   \<and> edge (status (wagers active2 1)) (ResolveWager 1 10 []) 1
        (status (wagers (snd (exec (env_of 11 0 7) (ResolveWager 1 10 []) active2)) 1))
   \<and> \<not> isl (fst (exec (env_of 11 0 7) (ResolveWager 1 10 []) active2))
   \<and> isl (fst (exec (env_of 11 0 9) (ResolveWager 1 11 [])
         (snd (run [(env_of 99 0 8, CancelWager 1)]
            (snd (exec (env_of 11 0 7) (ResolveWager 1 10 []) active2))))))"
proof -
  have c: "created active2 1" by (simp add: active2_eq created_def)
  have h: "\<not> isl (fst (exec (env_of 11 0 7) (ResolveWager 1 10 []) active2))"
    by (simp add: active2_eq eval_defs)
  have n: "status (wagers (snd (exec (env_of 11 0 7) (ResolveWager 1 10 []) active2)) 1)
      \<noteq> status (wagers active2 1)"
    by (simp add: active2_eq eval_defs)
  from status_follows_diagram [OF c, of "env_of 11 0 7" "ResolveWager 1 10 []"
      "[(env_of 99 0 8, CancelWager 1)]" 10 "[]" "env_of 11 0 9" 11 "[]"] c h n
  show ?thesis by blast
qed

section \<open>Cancellation\<close>

lemma refund_isl:
  "isl (fst (refund e ps v s)) \<longleftrightarrow> \<not> (length ps * v \<le> balance s \<and> (\<forall>p\<in>set ps. can_receive e p))"
proof (induction ps arbitrary: s)
  case Nil
  then show ?case by simp
next
  case (Cons p ps)
  show ?case
  proof (cases "balance s < v \<or> \<not> can_receive e p")
    case True
    then show ?thesis by (auto simp: transfer_def)
  next
    case False
    then have "refund e (p # ps) v s = refund e ps v (s\<lparr>balance := balance s - v, sent := sent s @ [(p, v)]\<rparr>)"
      by (simp add: transfer_def)
    then show ?thesis using False Cons.IH [of "s\<lparr>balance := balance s - v, sent := sent s @ [(p, v)]\<rparr>"]
      by auto
  qed
qed

lemma le1_uint8: "\<not> 1 < (x :: uint8) \<longleftrightarrow> x = 0 \<or> x = 1"
proof
  assume "\<not> 1 < x"
  then have "unat x = 0 \<or> unat x = 1" by (auto simp: word_less_nat_alt)
  then show "x = 0 \<or> x = 1" by (auto simp: word_unat_eq_iff)
qed auto

lemma not_isl_fst: "\<not> isl x \<Longrightarrow> \<exists>r. x = Inr r"
  by (cases x) auto

lemma cancelWager_isl:
  "\<not> isl (fst (cancelWager e k s)) \<longleftrightarrow>
     msg_value e = 0 \<and> (status (wagers s k) = 0 \<or> status (wagers s k) = 1)
     \<and> (msg_sender e = owner s \<or> (participants (wagers s k) \<noteq> [] \<and> msg_sender e = participants (wagers s k) ! 0))
     \<and> length (participants (wagers s k)) * unat (amount (wagers s k)) \<le> balance s
     \<and> (\<forall>p\<in>set (participants (wagers s k)). can_receive e p)"
  by (auto simp: cancelWager_def Let_def refund_isl set_wager_def)

lemma cancelWager_opt_Inr:
  assumes "cancelWager_opt e k s = (Inr u, s')"
  shows "msg_value e = 0" "status_opt (wagers_opt s k) = 0 \<or> status_opt (wagers_opt s k) = 1"
    "msg_sender e = owner_opt s \<or> (wagerParticipants s k \<noteq> [] \<and> msg_sender e = hd (wagerParticipants s k))"
    "s' = s\<lparr>balance := balance s - length (wagerParticipants s k) * unat (amount_opt (wagers_opt s k)),
            sent := sent s @ map (\<lambda>p. (p, unat (amount_opt (wagers_opt s k)))) (wagerParticipants s k),
            wagers_opt := (wagers_opt s)(k := (wagers_opt s k)\<lparr>status_opt := 3\<rparr>)\<rparr>"
    "length (wagerParticipants s k) * unat (amount_opt (wagers_opt s k)) \<le> balance s"
proof -
  let ?s1 = "set_wager_opt k (\<lambda>g. g\<lparr>status_opt := 3\<rparr>) s"
  from assms have pre: "msg_value e = 0" "\<not> 1 < status_opt (wagers_opt s k)"
    "msg_sender e = owner_opt s \<or> (wagerParticipants s k \<noteq> [] \<and> msg_sender e = hd (wagerParticipants s k))"
    and r: "refund e (wagerParticipants s k) (unat (amount_opt (wagers_opt s k))) ?s1 = (Inr u, s')"
    by (auto simp: cancelWager_opt_def Let_def hd_conv_nth split: if_splits)
  show "msg_value e = 0" 
    "msg_sender e = owner_opt s \<or> (wagerParticipants s k \<noteq> [] \<and> msg_sender e = hd (wagerParticipants s k))"
    by (rule pre)+
  show "status_opt (wagers_opt s k) = 0 \<or> status_opt (wagers_opt s k) = 1"
    using pre(2) by (simp add: le1_uint8)
  from refund_Inr [OF r]
  show "s' = s\<lparr>balance := balance s - length (wagerParticipants s k) * unat (amount_opt (wagers_opt s k)),
            sent := sent s @ map (\<lambda>p. (p, unat (amount_opt (wagers_opt s k)))) (wagerParticipants s k),
            wagers_opt := (wagers_opt s)(k := (wagers_opt s k)\<lparr>status_opt := 3\<rparr>)\<rparr>"
    "length (wagerParticipants s k) * unat (amount_opt (wagers_opt s k)) \<le> balance s"
    by (simp_all add: set_wager_opt_def)
qed

lemma exec_opt_Inr_Cancel:
  "exec_opt e (CancelWager_opt k) s = (Inr r, s') \<longleftrightarrow>
     r = None \<and> cancelWager_opt e k s = (Inr (), s')"
  by (auto simp: exec_opt_def transact_Inr returning_Inr)

lemma cancelWager_exec:
  assumes "fst (exec e (CancelWager k) s) = Inr r"
  shows "status (wagers s k) = 0 \<or> status (wagers s k) = 1"
    "msg_sender e = owner s
       \<or> (participants (wagers s k) \<noteq> [] \<and> msg_sender e = participants (wagers s k) ! 0)"
    "status (wagers (snd (exec e (CancelWager k) s)) k) = 3"
    "sent (snd (exec e (CancelWager k) s))
       = sent s @ map (\<lambda>p. (p, unat (amount (wagers s k)))) (participants (wagers s k))"
proof -
  let ?s' = "snd (exec e (CancelWager k) s)"
  from exec_Inr_fst [OF assms] have c: "cancelWager e k s = (Inr (), ?s')"
    by (simp add: exec_Inr_Cancel)
  note cc = cancelWager_Inr [OF c]
  show "status (wagers s k) = 0 \<or> status (wagers s k) = 1" by (rule cc(2))
  show "msg_sender e = owner s
       \<or> (participants (wagers s k) \<noteq> [] \<and> msg_sender e = participants (wagers s k) ! 0)"
    using cc(3) by (auto simp: hd_conv_nth)
  have "status (wagers (s\<lparr>balance := balance s - length (participants (wagers s k)) * unat (amount (wagers s k)),
            sent := sent s @ map (\<lambda>p. (p, unat (amount (wagers s k)))) (participants (wagers s k)),
            wagers := (wagers s)(k := (wagers s k)\<lparr>status := 3\<rparr>)\<rparr>) k) = 3" by simp
  then show "status (wagers ?s' k) = 3" using cc(4) by simp
  have "sent (s\<lparr>balance := balance s - length (participants (wagers s k)) * unat (amount (wagers s k)),
            sent := sent s @ map (\<lambda>p. (p, unat (amount (wagers s k)))) (participants (wagers s k)),
            wagers := (wagers s)(k := (wagers s k)\<lparr>status := 3\<rparr>)\<rparr>)
       = sent s @ map (\<lambda>p. (p, unat (amount (wagers s k)))) (participants (wagers s k))" by simp
  then show "sent ?s' = sent s @ map (\<lambda>p. (p, unat (amount (wagers s k)))) (participants (wagers s k))"
    using cc(4) by simp
qed

lemma cancelWager_opt_exec:
  assumes "fst (exec_opt e (CancelWager_opt k) t) = Inr r"
  shows "status_opt (wagers_opt t k) = 0 \<or> status_opt (wagers_opt t k) = 1"
    "msg_sender e = owner_opt t
       \<or> (wagerParticipants t k \<noteq> [] \<and> msg_sender e = wagerParticipants t k ! 0)"
    "status_opt (wagers_opt (snd (exec_opt e (CancelWager_opt k) t)) k) = 3"
    "sent (snd (exec_opt e (CancelWager_opt k) t))
       = sent t @ map (\<lambda>p. (p, unat (amount_opt (wagers_opt t k)))) (wagerParticipants t k)"
proof -
  let ?t' = "snd (exec_opt e (CancelWager_opt k) t)"
  from assms have "exec_opt e (CancelWager_opt k) t = (Inr r, ?t')" by (simp add: prod_eq_iff)
  then have c: "cancelWager_opt e k t = (Inr (), ?t')"
    by (simp add: exec_opt_Inr_Cancel)
  note cc = cancelWager_opt_Inr [OF c]
  show "status_opt (wagers_opt t k) = 0 \<or> status_opt (wagers_opt t k) = 1" by (rule cc(2))
  show "msg_sender e = owner_opt t
       \<or> (wagerParticipants t k \<noteq> [] \<and> msg_sender e = wagerParticipants t k ! 0)"
    using cc(3) by (auto simp: hd_conv_nth)
  have "status_opt (wagers_opt (t\<lparr>balance := balance t - length (wagerParticipants t k) * unat (amount_opt (wagers_opt t k)),
            sent := sent t @ map (\<lambda>p. (p, unat (amount_opt (wagers_opt t k)))) (wagerParticipants t k),
            wagers_opt := (wagers_opt t)(k := (wagers_opt t k)\<lparr>status_opt := 3\<rparr>)\<rparr>) k) = 3" by simp
  then show "status_opt (wagers_opt ?t' k) = 3" using cc(4) by simp
  have "sent (t\<lparr>balance := balance t - length (wagerParticipants t k) * unat (amount_opt (wagers_opt t k)),
            sent := sent t @ map (\<lambda>p. (p, unat (amount_opt (wagers_opt t k)))) (wagerParticipants t k),
            wagers_opt := (wagers_opt t)(k := (wagers_opt t k)\<lparr>status_opt := 3\<rparr>)\<rparr>)
       = sent t @ map (\<lambda>p. (p, unat (amount_opt (wagers_opt t k)))) (wagerParticipants t k)" by simp
  then show "sent ?t' = sent t @ map (\<lambda>p. (p, unat (amount_opt (wagers_opt t k)))) (wagerParticipants t k)"
    using cc(4) by simp
qed

lemmas eval_opt_defs = exec_opt_def cancelWager_opt_def set_wager_opt_def zero_Wager_opt_def

lemma pending3_eq: "pending3 = \<lparr>balance = 150, sent = [], events = [WagerCreated 1 10 50],
   wagers = (\<lambda>k. zero_Wager)(1 := \<lparr>id_wager = 1, participants = [10, 11, 13], amount = 50,
                    condition = ''snow'', status = 0, winner = 0, charityEnabled = False,
                    charityPercentage = 0, charityAddress = 0, charityDonated = 0,
                    createdAt = 5, resolvedAt = 0\<rparr>), nextWagerId = 2, owner = 99\<rparr>"
  by (simp add: pending3_def eval_defs)

lemma pending3_opt_eq: "pending3_opt = \<lparr>balance = 150, sent = [], events = [],
   wagerParticipants = (\<lambda>k. [])(1 := [10, 11, 13]),
   wagerConditions = (\<lambda>k. [])(1 := ''snow''),
   wagers_opt = (\<lambda>k. zero_Wager_opt)(1 := \<lparr>amount_opt = 50, createdAt_opt = 5, id_opt = 1,
       status_opt = 0, charityPercentage_opt = 0, charityEnabled_opt = False, winner_opt = 0,
       charityAddress_opt = 0\<rparr>),
   charityDonated_opt = (\<lambda>k. 0), resolvedAt_opt = (\<lambda>k. 0), nextWagerId_opt = 2,
   owner_opt = 99\<rparr>"
  by (simp add: pending3_opt_def)

text \<open>
  C3.  In both contracts, from any state: a successful \<open>cancelWager\<close> found the wager
  Pending (0) or Active (1) and was called by the owner or by \<open>participants[0]\<close>; it
  leaves the status Cancelled (3) and makes exactly one transfer of the wager's amount to
  each entry of the participants, in order, whether or not that participant staked.  A
  caller that is neither the owner nor \<open>participants[0]\<close> is rejected.
\<close>

theorem cancelWager_refunds:
  "(fst (exec e (CancelWager k) s) = Inr r \<longrightarrow>
      (status (wagers s k) = 0 \<or> status (wagers s k) = 1)
      \<and> (msg_sender e = owner s
           \<or> (participants (wagers s k) \<noteq> [] \<and> msg_sender e = participants (wagers s k) ! 0))
      \<and> status (wagers (snd (exec e (CancelWager k) s)) k) = 3
      \<and> sent (snd (exec e (CancelWager k) s))
          = sent s @ map (\<lambda>p. (p, unat (amount (wagers s k)))) (participants (wagers s k)))
   \<and> (\<not> (msg_sender e = owner s
           \<or> (participants (wagers s k) \<noteq> [] \<and> msg_sender e = participants (wagers s k) ! 0))
        \<longrightarrow> isl (fst (exec e (CancelWager k) s)))
   \<and> (fst (exec_opt e (CancelWager_opt k) t) = Inr r' \<longrightarrow>
      (status_opt (wagers_opt t k) = 0 \<or> status_opt (wagers_opt t k) = 1)
      \<and> (msg_sender e = owner_opt t
           \<or> (wagerParticipants t k \<noteq> [] \<and> msg_sender e = wagerParticipants t k ! 0))
      \<and> status_opt (wagers_opt (snd (exec_opt e (CancelWager_opt k) t)) k) = 3
      \<and> sent (snd (exec_opt e (CancelWager_opt k) t))
          = sent t @ map (\<lambda>p. (p, unat (amount_opt (wagers_opt t k)))) (wagerParticipants t k))
   \<and> (\<not> (msg_sender e = owner_opt t
           \<or> (wagerParticipants t k \<noteq> [] \<and> msg_sender e = wagerParticipants t k ! 0))
        \<longrightarrow> isl (fst (exec_opt e (CancelWager_opt k) t)))"
proof -
  have 1: "isl (fst (exec e (CancelWager k) s))"
    if "\<not> (msg_sender e = owner s
           \<or> (participants (wagers s k) \<noteq> [] \<and> msg_sender e = participants (wagers s k) ! 0))"
    using that cancelWager_exec(2) [of e k s] not_isl_fst [of "fst (exec e (CancelWager k) s)"]
    by blast
  have 2: "isl (fst (exec_opt e (CancelWager_opt k) t))"
    if "\<not> (msg_sender e = owner_opt t
           \<or> (wagerParticipants t k \<noteq> [] \<and> msg_sender e = wagerParticipants t k ! 0))"
    using that cancelWager_opt_exec(2) [of e k t]
      not_isl_fst [of "fst (exec_opt e (CancelWager_opt k) t)"]
    by blast
  from 1 2 cancelWager_exec [of e k s r] cancelWager_opt_exec [of e k t r']
  show ?thesis by blast
qed

theorem cancelWager_refunds_witness:
  "fst (exec (env_of 10 0 6) (CancelWager 1) pending3) = Inr None
   \<and> msg_sender (env_of 10 0 6) = participants (wagers pending3 1) ! 0
   \<and> status (wagers (snd (exec (env_of 10 0 6) (CancelWager 1) pending3)) 1) = 3
   \<and> sent (snd (exec (env_of 10 0 6) (CancelWager 1) pending3)) = [(10, 50), (11, 50), (13, 50)]
   \<and> isl (fst (exec (env_of 11 0 6) (CancelWager 1) pending3))
   \<and> fst (exec_opt (env_of 10 0 6) (CancelWager_opt 1) pending3_opt) = Inr None
   \<and> status_opt (wagers_opt (snd (exec_opt (env_of 10 0 6) (CancelWager_opt 1) pending3_opt)) 1) = 3
   \<and> sent (snd (exec_opt (env_of 10 0 6) (CancelWager_opt 1) pending3_opt))
       = [(10, 50), (11, 50), (13, 50)]
   \<and> isl (fst (exec_opt (env_of 11 0 6) (CancelWager_opt 1) pending3_opt))"
proof -
  have h: "fst (exec (env_of 10 0 6) (CancelWager 1) pending3) = Inr None"
    by (simp add: pending3_eq eval_defs)
  have h': "fst (exec_opt (env_of 10 0 6) (CancelWager_opt 1) pending3_opt) = Inr None"
    by (simp add: pending3_opt_eq eval_defs eval_opt_defs)
  have v: "participants (wagers pending3 1) = [10, 11, 13]" "unat (amount (wagers pending3 1)) = 50"
    "sent pending3 = []" "owner pending3 = 99"
    "wagerParticipants pending3_opt 1 = [10, 11, 13]"
    "unat (amount_opt (wagers_opt pending3_opt 1)) = 50" "sent pending3_opt = []"
    "owner_opt pending3_opt = 99"
    by (simp_all add: pending3_eq pending3_opt_eq)
  have n: "msg_sender (env_of 10 0 6) = 10" "msg_sender (env_of 11 0 6) = 11"
    by (simp_all add: env_of_def)
  from cancelWager_refunds [of "env_of 10 0 6" 1 pending3 None pending3_opt None]
    cancelWager_refunds [of "env_of 11 0 6" 1 pending3 None pending3_opt None] h h'
  show ?thesis unfolding v n by simp
qed

section \<open>Reverted calls\<close>

lemma transfer_Inr: "transfer e a v s = (Inr u, s') \<Longrightarrow> can_receive e a \<and> v \<le> balance s"
  by (auto simp: transfer_def split: if_splits)

lemma donate_receiver:
  assumes "donate e k tot s = (Inr ca, s')" "charity_due (wagers s k)"
  shows "can_receive e (charityAddress (wagers s k))"
  using assms
  by (auto simp: donate_def Let_def charity_due_def dest: transfer_Inr
      split: if_splits prod.splits sum.splits)

lemma distribute_receivers:
  assumes "distribute e k w s = (Inr u, s')"
  shows "can_receive e w"
    "charity_due (wagers s k) \<Longrightarrow> can_receive e (charityAddress (wagers s k))"
proof -
  from assms obtain ca s1 s2 where d: "donate e k (totalPool (wagers s k)) s = (Inr ca, s1)"
    and t: "transfer e w (totalPool (wagers s k) - ca) s1 = (Inr (), s2)"
    by (auto simp: distribute_def Let_def totalPool_def split: if_splits prod.splits sum.splits)
  show "can_receive e w" using transfer_Inr [OF t] by simp
  show "charity_due (wagers s k) \<Longrightarrow> can_receive e (charityAddress (wagers s k))"
    by (rule donate_receiver [OF d])
qed

lemma resolveWager_receivers:
  assumes "resolveWager e k w ev s = (Inr u, s')"
  shows "can_receive e w"
    "charity_due (wagers s k) \<Longrightarrow> can_receive e (charityAddress (wagers s k))"
proof -
  let ?s1 = "set_wager k (\<lambda>g. g\<lparr>status := 2, winner := w, resolvedAt := block_timestamp e\<rparr>) s"
  from assms have d: "distribute e k w ?s1 = (Inr u, s')"
    by (auto simp: resolveWager_def Let_def split: if_splits)
  have g: "charity_due (wagers ?s1 k) = charity_due (wagers s k)"
    "charityAddress (wagers ?s1 k) = charityAddress (wagers s k)"
    by (simp_all add: set_wager_def charity_due_def)
  show "can_receive e w" by (rule distribute_receivers(1) [OF d])
  show "charity_due (wagers s k) \<Longrightarrow> can_receive e (charityAddress (wagers s k))"
    using distribute_receivers(2) [OF d] g by simp
qed

lemma resolveWager_fails_with_transfer:
  assumes "\<not> can_receive e w
     \<or> (charityEnabled (wagers s k) \<and> 0 < charityPercentage (wagers s k)
          \<and> charityAddress (wagers s k) \<noteq> 0 \<and> \<not> can_receive e (charityAddress (wagers s k)))
     \<or> balance s < unat (amount (wagers s k)) * length (participants (wagers s k))"
  shows "isl (fst (exec e (ResolveWager k w ev) s))"
proof (rule ccontr)
  assume "\<not> isl (fst (exec e (ResolveWager k w ev) s))"
  then obtain r where "fst (exec e (ResolveWager k w ev) s) = Inr r"
    by (cases "fst (exec e (ResolveWager k w ev) s)") auto
  from exec_Inr_fst [OF this]
  have ok: "resolveWager e k w ev s = (Inr (), snd (exec e (ResolveWager k w ev) s))"
    by (simp add: exec_Inr_Resolve)
  note rc = resolveWager_receivers [OF ok] and rr = resolveWager_Inr(6) [OF ok]
  from assms rc rr show False by (auto simp: charity_due_def totalPool_def)
qed

lemma cancelWager_fails_with_transfer:
  assumes "(\<exists>p\<in>set (participants (wagers s k)). \<not> can_receive e p)
     \<or> balance s < length (participants (wagers s k)) * unat (amount (wagers s k))"
  shows "isl (fst (exec e (CancelWager k) s))"
proof -
  have "isl (fst (cancelWager e k s))"
    using assms cancelWager_isl [of e k s] by auto
  then show ?thesis by (simp add: exec_isl isl_returning)
qed

lemma exec_isl_state: "isl (fst (exec e c s)) \<Longrightarrow> snd (exec e c s) = s"
  using exec_Inl [of e c s] by (auto simp: isl_def)

lemma exec_fst_Inl: "fst (dispatch e c s) = Inl err \<Longrightarrow> fst (exec e c s) = Inl err"
  by (cases "dispatch e c s") (simp add: exec_def transact_def)

text \<open>
  C5.  A call that fails leaves the state, and so every record that \<open>getWager\<close> returns,
  as before the call.  \<open>resolveWager\<close> fails, and changes nothing, whenever the winner
  does not accept value, or the charity share is due and the charity address does not
  accept value, or the balance is below the total pool; \<open>cancelWager\<close> fails, and
  changes nothing, whenever one of the participants does not accept value or the balance
  is below the sum of the refunds.  So a transfer that fails, also after the body has
  written the new status and made earlier transfers, leaves no payout and no write behind.
\<close>

theorem failed_call_rolls_back:
  "(isl (fst (exec e c s)) \<longrightarrow>
      snd (exec e c s) = s \<and> getWager (snd (exec e c s)) j = getWager s j)
   \<and> (\<not> can_receive e w
        \<or> (charityEnabled (wagers s k) \<and> 0 < charityPercentage (wagers s k)
             \<and> charityAddress (wagers s k) \<noteq> 0
             \<and> \<not> can_receive e (charityAddress (wagers s k)))
        \<or> balance s < unat (amount (wagers s k)) * length (participants (wagers s k))
       \<longrightarrow> isl (fst (exec e (ResolveWager k w ev) s))
           \<and> snd (exec e (ResolveWager k w ev) s) = s)
   \<and> ((\<exists>p\<in>set (participants (wagers s k)). \<not> can_receive e p)
        \<or> balance s < length (participants (wagers s k)) * unat (amount (wagers s k))
       \<longrightarrow> isl (fst (exec e (CancelWager k) s)) \<and> snd (exec e (CancelWager k) s) = s)"
  using exec_isl_state [of e c s] exec_isl_state [of e "ResolveWager k w ev" s]
    exec_isl_state [of e "CancelWager k" s]
    resolveWager_fails_with_transfer [of e w s k ev] cancelWager_fails_with_transfer [of s k e]
  by auto

theorem failed_call_rolls_back_witness:
  "\<not> can_receive (env_rejecting 10 11 0 7) 10
   \<and> status (wagers (snd (dispatch (env_rejecting 10 11 0 7) (ResolveWager 1 10 []) active2)) 1) = 2
   \<and> sent (snd (dispatch (env_rejecting 10 11 0 7) (ResolveWager 1 10 []) active2)) = [(12, 20)]
   \<and> exec (env_rejecting 10 11 0 7) (ResolveWager 1 10 []) active2 = (Inl TransferFailed, active2)
   \<and> status (getWager (snd (exec (env_rejecting 10 11 0 7) (ResolveWager 1 10 []) active2)) 1) = 1
   \<and> 13 \<in> set (participants (wagers pending3 1)) \<and> \<not> can_receive (env_rejecting 13 10 0 6) 13
   \<and> status (wagers (snd (dispatch (env_rejecting 13 10 0 6) (CancelWager 1) pending3)) 1) = 3
   \<and> sent (snd (dispatch (env_rejecting 13 10 0 6) (CancelWager 1) pending3)) = [(10, 50), (11, 50)]
   \<and> exec (env_rejecting 13 10 0 6) (CancelWager 1) pending3 = (Inl TransferFailed, pending3)"
proof -
  have h: "\<not> can_receive (env_rejecting 10 11 0 7) 10"
    "fst (dispatch (env_rejecting 10 11 0 7) (ResolveWager 1 10 []) active2) = Inl TransferFailed"
    "status (wagers (snd (dispatch (env_rejecting 10 11 0 7) (ResolveWager 1 10 []) active2)) 1) = 2"
    "sent (snd (dispatch (env_rejecting 10 11 0 7) (ResolveWager 1 10 []) active2)) = [(12, 20)]"
    by (simp_all add: active2_eq eval_defs env_rejecting_def)
  have g: "13 \<in> set (participants (wagers pending3 1))" "\<not> can_receive (env_rejecting 13 10 0 6) 13"
    "fst (dispatch (env_rejecting 13 10 0 6) (CancelWager 1) pending3) = Inl TransferFailed"
    "status (wagers (snd (dispatch (env_rejecting 13 10 0 6) (CancelWager 1) pending3)) 1) = 3"
    "sent (snd (dispatch (env_rejecting 13 10 0 6) (CancelWager 1) pending3)) = [(10, 50), (11, 50)]"
    by (simp_all add: pending3_eq eval_defs env_rejecting_def)
  have a: "status (getWager active2 1) = 1" by (simp add: active2_eq getWager_def)
  have f: "fst (exec (env_rejecting 10 11 0 7) (ResolveWager 1 10 []) active2) = Inl TransferFailed"
    "fst (exec (env_rejecting 13 10 0 6) (CancelWager 1) pending3) = Inl TransferFailed"
    by (rule exec_fst_Inl [OF h(2)], rule exec_fst_Inl [OF g(3)])
  from failed_call_rolls_back [of "env_rejecting 10 11 0 7" "ResolveWager 1 10 []" active2 1 10 1 "[]"]
    failed_call_rolls_back [of "env_rejecting 13 10 0 6" "CancelWager 1" pending3 1 10 1 "[]"]
    h g a f
  show ?thesis by (auto simp: prod_eq_iff)
qed

end
